theory Spec2Isabelle
  imports Main "HOL-Library.Word" "HOL-Library.Product_Lexorder"
begin

unbundle bit_operations_syntax

section \<open>Machine integers\<close>

text \<open>
  Positions on query and reference are \<open>nucSeqIndex = uint64_t\<close>; the extraction
  routines of the pack take \<open>int64_t\<close>. Values are kept as \<open>nat\<close> and \<open>int\<close>,
  and every conversion between the two C++ types is written as \<open>u64\<close> or \<open>i64\<close>.
\<close>

type_synonym nucSeqIndex = nat

definition u64 :: "int \<Rightarrow> nat" where
  "u64 x = nat (x mod 2 ^ 64)"

definition i64 :: "int \<Rightarrow> int" where
  "i64 x = (x + 2 ^ 63) mod 2 ^ 64 - 2 ^ 63"

section \<open>The packed reference (pack.h)\<close>

record SequenceInPack =
  sName :: string
  sComment :: string
  uiStartOffsetUnpacked :: nat
  uiLengthUnpacked :: nat
  gi :: nat
  uiNumberOfHoles :: int

record HoleDescriptor =
  offset :: nat
  hole_length :: int
  xHoleCharacter :: char

record Pack =
  bPackComprisesReverseStrand :: bool
  xVectorOfSequenceDescriptors :: "SequenceInPack list"
  xVectorOfHoleDescriptors :: "HoleDescriptor list"
  xPackedNucSeqs :: "8 word list"
  seed :: nat
  uiUnpackedSizeForwardStrand :: nat

datatype error =
    OutOfRange
  | BridgingExtraction
  | BeginGreaterThanEnd
  | CorruptPack

text \<open>
  \<open>getNucleotideOnPos\<close>: byte \<open>uiPosition >> 2\<close>, shifted right by
  \<open>(~uiPosition & 3) << 1\<close>, masked with 3. The position is a \<open>uint64_t\<close>.
\<close>

definition getNucleotideOnPos :: "Pack \<Rightarrow> nat \<Rightarrow> 8 word" where
  "getNucleotideOnPos p uiPosition =
     (let w = (word_of_nat uiPosition :: 64 word) in
      drop_bit (unat (push_bit 1 (NOT w AND 3))) (xPackedNucSeqs p ! unat (drop_bit 2 w)) AND 3)"

definition uiUnpackedSizeForwardPlusReverse :: "Pack \<Rightarrow> nat" where
  "uiUnpackedSizeForwardPlusReverse p = (uiUnpackedSizeForwardStrand p * 2) mod 2 ^ 64"

definition uiStartOfReverseStrand :: "Pack \<Rightarrow> nat" where
  "uiStartOfReverseStrand p = uiUnpackedSizeForwardStrand p"

definition bPositionIsOnReversStrand :: "Pack \<Rightarrow> nat \<Rightarrow> bool" where
  "bPositionIsOnReversStrand p uiPosition \<longleftrightarrow> uiPosition \<ge> uiStartOfReverseStrand p"

text \<open>The result is computed in \<open>uint64_t\<close> and returned as \<open>int64_t\<close>.\<close>

definition iAbsolutePosition :: "Pack \<Rightarrow> nat \<Rightarrow> int" where
  "iAbsolutePosition p uiPosition =
     i64 (if bPositionIsOnReversStrand p uiPosition
          then int (u64 (int (uiUnpackedSizeForwardPlusReverse p) - int (u64 (int uiPosition + 1))))
          else int uiPosition)"

definition uiPositionToReverseStrand :: "Pack \<Rightarrow> nat \<Rightarrow> nat" where
  "uiPositionToReverseStrand p uiPositionOnForwardStrand =
     u64 (int (uiUnpackedSizeForwardPlusReverse p) - int (u64 (int uiPositionOnForwardStrand + 1)))"

text \<open>
  Modelled from the spec: \<open>vRangeCheckAndThrowExclusive\<close> and
  \<open>vRangeCheckAndThrowInclusive\<close> are declared in support.h, which is not part of the
  sources at hand. The spec's error taxonomy has \<open>OutOfRange\<close> for extraction requests
  outside the address space; the exclusive check admits \<open>lo \<le> v < hi\<close>, the inclusive
  one \<open>lo \<le> v \<le> hi\<close>.
\<close>

definition vRangeCheckAndThrowExclusive :: "int \<Rightarrow> int \<Rightarrow> int \<Rightarrow> error + unit" where
  "vRangeCheckAndThrowExclusive lo v hi = (if lo \<le> v \<and> v < hi then Inr () else Inl OutOfRange)"

definition vRangeCheckAndThrowInclusive :: "int \<Rightarrow> int \<Rightarrow> int \<Rightarrow> error + unit" where
  "vRangeCheckAndThrowInclusive lo v hi = (if lo \<le> v \<and> v \<le> hi then Inr () else Inl OutOfRange)"

text \<open>The forward loop of \<open>vExtractSubsection\<close> (\<open>CHECK_HOLE_DESC\<close> is 0).\<close>

function extractForward :: "Pack \<Rightarrow> int \<Rightarrow> int \<Rightarrow> 8 word list" where
  "extractForward p iPosition iEnd =
     (if iPosition < iEnd
      then getNucleotideOnPos p (u64 iPosition) # extractForward p (iPosition + 1) iEnd
      else [])"
  by pat_completeness auto
termination
  by (relation "measure (\<lambda>(p, iPosition, iEnd). nat (iEnd - iPosition))") auto

text \<open>The reverse loop: downward over absolute positions, emitting \<open>3 - base\<close>.\<close>

function extractReverse :: "Pack \<Rightarrow> int \<Rightarrow> int \<Rightarrow> 8 word list" where
  "extractReverse p iPosition iAbsoluteEnd =
     (if iPosition > iAbsoluteEnd
      then (3 - getNucleotideOnPos p (u64 iPosition)) # extractReverse p (iPosition - 1) iAbsoluteEnd
      else [])"
  by pat_completeness auto
termination
  by (relation "measure (\<lambda>(p, iPosition, iAbsoluteEnd). nat (iPosition - iAbsoluteEnd))") auto

declare extractForward.simps [simp del]
declare extractReverse.simps [simp del]

definition vExtractSubsection ::
  "Pack \<Rightarrow> int \<Rightarrow> int \<Rightarrow> 8 word list \<Rightarrow> bool \<Rightarrow> error + 8 word list" where
  "vExtractSubsection p iBegin iEnd rxSequence bAppend =
     (case vRangeCheckAndThrowExclusive 0 iBegin (i64 (int (uiUnpackedSizeForwardPlusReverse p))) of
        Inl e \<Rightarrow> Inl e
      | Inr _ \<Rightarrow>
     (case vRangeCheckAndThrowInclusive 0 iEnd (i64 (int (uiUnpackedSizeForwardPlusReverse p))) of
        Inl e \<Rightarrow> Inl e
      | Inr _ \<Rightarrow>
        if bPositionIsOnReversStrand p (u64 iBegin) \<noteq> bPositionIsOnReversStrand p (u64 (iEnd - 1))
        then Inl BridgingExtraction
        else if \<not> iBegin \<le> iEnd then Inl BeginGreaterThanEnd
        else
          let rxSequence0 = (if bAppend then rxSequence else []);
              bExtractAsOnReverseStrand = bPositionIsOnReversStrand p (u64 iBegin)
          in if \<not> bExtractAsOnReverseStrand
             then Inr (rxSequence0 @ extractForward p iBegin iEnd)
             else Inr (rxSequence0 @
                       extractReverse p (iAbsolutePosition p (u64 iBegin))
                                        (iAbsolutePosition p (u64 iEnd)))))"

text \<open>\<open>vExtract(iBegin, iEnd)\<close> extracts into a fresh sequence.\<close>

definition vExtract :: "Pack \<Rightarrow> int \<Rightarrow> int \<Rightarrow> error + 8 word list" where
  "vExtract p iBegin iEnd = vExtractSubsection p iBegin iEnd [] False"

text \<open>
  \<open>vExtractSubsectionN\<close> reinstates holes as code 4. The hole iterator is the list of
  descriptors still ahead of it; \<open>std::lower_bound\<close> on the sorted hole vector is the
  first descriptor for which the comparison fails. A hole's end is
  \<open>offset + length\<close> in \<open>uint64_t\<close> (\<open>length\<close> is an \<open>int32_t\<close>).
\<close>

definition holeEnd :: "HoleDescriptor \<Rightarrow> nat" where
  "holeEnd rX = u64 (int (offset rX) + hole_length rX)"

function extractForwardN :: "Pack \<Rightarrow> HoleDescriptor list \<Rightarrow> int \<Rightarrow> int \<Rightarrow> 8 word list" where
  "extractForwardN p itHolesDesc iPosition iEnd =
     (if iPosition < iEnd
      then (if dropWhile (\<lambda>rX. holeEnd rX \<le> u64 iPosition) itHolesDesc \<noteq> []
               \<and> offset (hd (dropWhile (\<lambda>rX. holeEnd rX \<le> u64 iPosition) itHolesDesc)) \<le> u64 iPosition
            then 4
            else getNucleotideOnPos p (u64 iPosition))
           # extractForwardN p (dropWhile (\<lambda>rX. holeEnd rX \<le> u64 iPosition) itHolesDesc)
               (iPosition + 1) iEnd
      else [])"
  by pat_completeness auto
termination
  by (relation "measure (\<lambda>(p, itHolesDesc, iPosition, iEnd). nat (iEnd - iPosition))") auto

function extractReverseN :: "Pack \<Rightarrow> HoleDescriptor list \<Rightarrow> int \<Rightarrow> int \<Rightarrow> 8 word list" where
  "extractReverseN p itHolesDesc iPosition iAbsoluteEnd =
     (if iPosition > iAbsoluteEnd
      then (if dropWhile (\<lambda>rX. offset rX > u64 iPosition) itHolesDesc \<noteq> []
               \<and> holeEnd (hd (dropWhile (\<lambda>rX. offset rX > u64 iPosition) itHolesDesc)) > u64 iPosition
            then 4
            else 3 - getNucleotideOnPos p (u64 iPosition))
           # extractReverseN p (dropWhile (\<lambda>rX. offset rX > u64 iPosition) itHolesDesc)
               (iPosition - 1) iAbsoluteEnd
      else [])"
  by pat_completeness auto
termination
  by (relation "measure (\<lambda>(p, itHolesDesc, iPosition, iAbsoluteEnd). nat (iPosition - iAbsoluteEnd))") auto

declare extractForwardN.simps [simp del]
declare extractReverseN.simps [simp del]

definition vExtractSubsectionN ::
  "Pack \<Rightarrow> int \<Rightarrow> int \<Rightarrow> 8 word list \<Rightarrow> bool \<Rightarrow> error + 8 word list" where
  "vExtractSubsectionN p iBegin iEnd rxSequence bAppend =
     (let rxSequence0 = (if bAppend then rxSequence else []) in
      if iBegin = iEnd then Inr rxSequence0
      else
     (case vRangeCheckAndThrowExclusive 0 iBegin (i64 (int (uiUnpackedSizeForwardPlusReverse p))) of
        Inl e \<Rightarrow> Inl e
      | Inr _ \<Rightarrow>
     (case vRangeCheckAndThrowInclusive 0 iEnd (i64 (int (uiUnpackedSizeForwardPlusReverse p))) of
        Inl e \<Rightarrow> Inl e
      | Inr _ \<Rightarrow>
        if bPositionIsOnReversStrand p (u64 iBegin) \<noteq> bPositionIsOnReversStrand p (u64 (iEnd - 1))
        then Inl BridgingExtraction
        else if \<not> iBegin \<le> iEnd then Inl BeginGreaterThanEnd
        else
          let bExtractAsOnReverseStrand = bPositionIsOnReversStrand p (u64 iBegin)
          in if \<not> bExtractAsOnReverseStrand
             then Inr (rxSequence0 @
                       extractForwardN p
                         (dropWhile (\<lambda>rX. holeEnd rX \<le> u64 iBegin) (xVectorOfHoleDescriptors p))
                         iBegin iEnd)
             else Inr (rxSequence0 @
                       extractReverseN p
                         (dropWhile (\<lambda>rX. offset rX > u64 (iAbsolutePosition p (u64 iBegin)))
                            (rev (xVectorOfHoleDescriptors p)))
                         (iAbsolutePosition p (u64 iBegin))
                         (iAbsolutePosition p (u64 iEnd))))))"

text \<open>\<open>vExtractPy(iBegin, iEnd)\<close> is the extraction with holes into a fresh sequence.\<close>

definition vExtractPy :: "Pack \<Rightarrow> int \<Rightarrow> int \<Rightarrow> error + 8 word list" where
  "vExtractPy p iBegin iEnd = vExtractSubsectionN p iBegin iEnd [] False"

section \<open>Storing and loading a pack (pack.h)\<close>

text \<open>
  The three files of a pack: \<open>.pac\<close> is written and read in binary, \<open>.ann\<close> and
  \<open>.amb\<close> as text, with the line feed written as it is. A file that does not exist
  is \<open>None\<close>. Writing is taken to succeed, and the \<open>assert\<close> calls are compiled out.
\<close>

record PackFiles =
  pacFile :: "8 word list option"
  annFile :: "string option"
  ambFile :: "string option"

datatype load_error =
    NonExistingPack
  | PackFileOpenFailed
  | PackResizeFailed
  | MissedZeroByte
  | WrongChecksum
  | InconsistentPackSize
  | IncompleteSequenceDescriptors
  | IncompleteHoleDescriptors

subsection \<open>Formatted output\<close>

text \<open>
  \<open>operator<<\<close> writes an unsigned integer as its decimal digits, a signed one with a
  leading minus sign when negative, a string and a character as they are.
\<close>

definition digit_char :: "nat \<Rightarrow> char" where
  "digit_char d = ''0123456789'' ! d"

function showNat :: "nat \<Rightarrow> string" where
  "showNat n = (if n < 10 then [digit_char n] else showNat (n div 10) @ [digit_char (n mod 10)])"
  by pat_completeness auto
termination
  by (relation "measure id") auto

declare showNat.simps [simp del]

definition showInt :: "int \<Rightarrow> string" where
  "showInt i = (if i < 0 then CHR ''-'' # showNat (nat (- i)) else showNat (nat i))"

subsection \<open>Formatted input\<close>

text \<open>
  An input stream: the characters not yet read, \<open>eofbit\<close> and \<open>failbit\<close>. Every
  formatted extraction starts with the sentry: on a stream that is not good it sets
  \<open>failbit\<close> and reads nothing; otherwise it skips white space (unless the operation
  is unformatted, as \<open>getline\<close> is), and fails with both bits set when the input ends
  there. A failed extraction leaves its target as it was, except that the numeric
  extractor stores 0 when it finds no digits and the largest value on overflow.
\<close>

record istream =
  buf :: string
  eofbit :: bool
  failbit :: bool

definition ifstream :: "string \<Rightarrow> istream" where
  "ifstream f = \<lparr> buf = f, eofbit = False, failbit = False \<rparr>"

definition isspace :: "char \<Rightarrow> bool" where
  "isspace c \<longleftrightarrow> c = CHR '' '' \<or> (9 \<le> (of_char c :: nat) \<and> (of_char c :: nat) \<le> 13)"

definition isdigit :: "char \<Rightarrow> bool" where
  "isdigit c \<longleftrightarrow> 48 \<le> (of_char c :: nat) \<and> (of_char c :: nat) \<le> 57"

definition good :: "istream \<Rightarrow> bool" where
  "good s \<longleftrightarrow> \<not> eofbit s \<and> \<not> failbit s"

definition sentry :: "bool \<Rightarrow> istream \<Rightarrow> bool \<times> istream" where
  "sentry noskipws s =
     (if \<not> good s then (False, s\<lparr> failbit := True \<rparr>)
      else if noskipws then (True, s)
      else if dropWhile isspace (buf s) = []
      then (False, s\<lparr> buf := [], eofbit := True, failbit := True \<rparr>)
      else (True, s\<lparr> buf := dropWhile isspace (buf s) \<rparr>))"

definition decimal :: "string \<Rightarrow> nat" where
  "decimal ds = foldl (\<lambda>a c. 10 * a + (of_char c - 48)) 0 ds"

text \<open>
  The numeric parser: an optional sign, then the longest run of digits; \<open>eofbit\<close> when
  the input ends in the number, \<open>failbit\<close> when there is no digit. The result is the
  sign and the magnitude.
\<close>

definition num_get :: "istream \<Rightarrow> (bool \<times> nat) option \<times> istream" where
  "num_get s =
     (let b = buf s;
          bSigned = (b \<noteq> [] \<and> (hd b = CHR ''-'' \<or> hd b = CHR ''+''));
          bNegative = (b \<noteq> [] \<and> hd b = CHR ''-'');
          b1 = (if bSigned then tl b else b);
          s' = s\<lparr> buf := dropWhile isdigit b1, eofbit := (dropWhile isdigit b1 = []) \<rparr>
      in if takeWhile isdigit b1 = [] then (None, s'\<lparr> failbit := True \<rparr>)
         else (Some (bNegative, decimal (takeWhile isdigit b1)), s'))"

text \<open>\<open>operator>>\<close> into an unsigned integer of \<open>w\<close> bits.\<close>

definition get_unsigned :: "nat \<Rightarrow> istream \<Rightarrow> nat \<Rightarrow> nat \<times> istream" where
  "get_unsigned w s x =
     (case sentry False s of
        (False, s') \<Rightarrow> (x, s')
      | (True, s') \<Rightarrow>
          (case num_get s' of
             (None, s'') \<Rightarrow> (0, s'')
           | (Some (bNegative, v), s'') \<Rightarrow>
               if v \<ge> 2 ^ w then (2 ^ w - 1, s''\<lparr> failbit := True \<rparr>)
               else ((if bNegative then (2 ^ w - v) mod 2 ^ w else v), s'')))"

text \<open>\<open>operator>>\<close> into a signed integer of \<open>w\<close> bits.\<close>

definition get_signed :: "nat \<Rightarrow> istream \<Rightarrow> int \<Rightarrow> int \<times> istream" where
  "get_signed w s x =
     (case sentry False s of
        (False, s') \<Rightarrow> (x, s')
      | (True, s') \<Rightarrow>
          (case num_get s' of
             (None, s'') \<Rightarrow> (0, s'')
           | (Some (bNegative, v), s'') \<Rightarrow>
               if bNegative \<and> int v > 2 ^ (w - 1) then (- (2 ^ (w - 1)), s''\<lparr> failbit := True \<rparr>)
               else if \<not> bNegative \<and> int v \<ge> 2 ^ (w - 1)
               then (2 ^ (w - 1) - 1, s''\<lparr> failbit := True \<rparr>)
               else ((if bNegative then - int v else int v), s'')))"

text \<open>\<open>operator>>\<close> into a string: the characters up to the next white space.\<close>

definition get_string :: "istream \<Rightarrow> string \<Rightarrow> string \<times> istream" where
  "get_string s x =
     (case sentry False s of
        (False, s') \<Rightarrow> (x, s')
      | (True, s') \<Rightarrow>
          (takeWhile (\<lambda>c. \<not> isspace c) (buf s'),
           s'\<lparr> buf := dropWhile (\<lambda>c. \<not> isspace c) (buf s'),
               eofbit := (dropWhile (\<lambda>c. \<not> isspace c) (buf s') = []) \<rparr>))"

text \<open>\<open>operator>>\<close> into a character: the next character that is not white space.\<close>

definition get_char :: "istream \<Rightarrow> char \<Rightarrow> char \<times> istream" where
  "get_char s x =
     (case sentry False s of
        (False, s') \<Rightarrow> (x, s')
      | (True, s') \<Rightarrow> (hd (buf s'), s'\<lparr> buf := tl (buf s') \<rparr>))"

text \<open>
  \<open>std::getline\<close>: the characters up to the next line feed, which is read and dropped;
  \<open>eofbit\<close> when the input ends first, and \<open>failbit\<close> when nothing at all was read.
\<close>

definition getline :: "istream \<Rightarrow> string \<Rightarrow> string \<times> istream" where
  "getline s x =
     (case sentry True s of
        (False, s') \<Rightarrow> (x, s')
      | (True, s') \<Rightarrow>
          (if dropWhile (\<lambda>c. c \<noteq> CHR 0x0A) (buf s') = []
           then (buf s', s'\<lparr> buf := [], eofbit := True, failbit := (buf s' = []) \<rparr>)
           else (takeWhile (\<lambda>c. c \<noteq> CHR 0x0A) (buf s'),
                 s'\<lparr> buf := tl (dropWhile (\<lambda>c. c \<noteq> CHR 0x0A) (buf s')) \<rparr>)))"

subsection \<open>Writing the files\<close>

text \<open>
  \<open>vStorePack\<close>: the packed bytes, a zero byte when the size is a multiple of 4, and
  the size modulo 4 as the last byte.
\<close>

definition vStorePack :: "8 word list \<Rightarrow> nat \<Rightarrow> 8 word list" where
  "vStorePack rxPackedSequences uiUnpackedSize =
     rxPackedSequences
     @ (if uiUnpackedSize mod 4 = 0 then [0] else [])
     @ [word_of_nat (uiUnpackedSize mod 4)]"

definition writeSequenceEntry :: "SequenceInPack \<Rightarrow> string" where
  "writeSequenceEntry rxEntry =
     showNat (gi rxEntry) @ '' '' @ sName rxEntry @ '' '' @ sComment rxEntry @ [CHR 0x0A]
     @ showNat (uiStartOffsetUnpacked rxEntry) @ '' '' @ showNat (uiLengthUnpacked rxEntry) @ '' ''
     @ showInt (uiNumberOfHoles rxEntry) @ [CHR 0x0A]"

definition writeHoleEntry :: "HoleDescriptor \<Rightarrow> string" where
  "writeHoleEntry rxEntry =
     showNat (offset rxEntry) @ '' '' @ showInt (hole_length rxEntry) @ '' ''
     @ [xHoleCharacter rxEntry] @ [CHR 0x0A]"

text \<open>\<open>vStoreCollectionDescripton\<close>: the contents of the \<open>.ann\<close> and the \<open>.amb\<close> file.\<close>

definition vStoreCollectionDescripton :: "Pack \<Rightarrow> string \<times> string" where
  "vStoreCollectionDescripton p =
     (showNat (uiUnpackedSizeForwardStrand p) @ '' ''
        @ showNat (length (xVectorOfSequenceDescriptors p)) @ '' ''
        @ showNat (seed p) @ [CHR 0x0A]
        @ concat (map writeSequenceEntry (xVectorOfSequenceDescriptors p)),
      showNat (uiUnpackedSizeForwardStrand p) @ '' ''
        @ showNat (length (xVectorOfSequenceDescriptors p)) @ '' ''
        @ showNat (length (xVectorOfHoleDescriptors p)) @ [CHR 0x0A]
        @ concat (map writeHoleEntry (xVectorOfHoleDescriptors p)))"

definition vStoreCollection :: "Pack \<Rightarrow> PackFiles" where
  "vStoreCollection p =
     \<lparr> pacFile = Some (vStorePack (xPackedNucSeqs p) (uiUnpackedSizeForwardStrand p)),
       annFile = Some (fst (vStoreCollectionDescripton p)),
       ambFile = Some (snd (vStoreCollectionDescripton p)) \<rparr>"

subsection \<open>Reading the files\<close>

text \<open>
  \<open>vLoadPackedSequence\<close>. The size of the vector is computed in \<open>std::streamoff\<close> and
  converted to \<open>size_t\<close>; a file too short for its trailer makes the \<open>resize\<close> throw.
  For a pack without bases the vector stays empty and \<open>read\<close> is asked for no bytes.
\<close>

definition vLoadPackedSequence :: "8 word list option \<Rightarrow> nat \<Rightarrow> Pack \<Rightarrow> load_error + Pack" where
  "vLoadPackedSequence file uiUnpackedSize p =
     (case file of
        None \<Rightarrow> Inl PackFileOpenFailed
      | Some bytes \<Rightarrow>
          (let uiFileSize = length bytes;
               bZeroByteInjection = (uiUnpackedSize mod 4 = 0);
               uiTrailer = 1 + (if bZeroByteInjection then 1 else 0)
           in if uiFileSize < uiTrailer then Inl PackResizeFailed
              else if bZeroByteInjection \<and> bytes ! (uiFileSize - uiTrailer) \<noteq> 0
              then Inl MissedZeroByte
              else if unat (bytes ! (uiFileSize - 1)) \<noteq> uiUnpackedSize mod 4
              then Inl WrongChecksum
              else if uiUnpackedSize div 4 + (if uiUnpackedSize mod 4 = 0 then 0 else 1)
                      \<noteq> uiFileSize - uiTrailer
              then Inl InconsistentPackSize
              else Inr (p\<lparr> xPackedNucSeqs := take (uiFileSize - uiTrailer) bytes \<rparr>)))"

text \<open>
  One round of the loop of \<open>vLoadSequenceDescriptorVector\<close>. The entry starts out
  default-constructed; it is kept only when no extraction failed, and then every field
  has been assigned.
\<close>

definition readSequenceEntry :: "istream \<Rightarrow> SequenceInPack \<times> istream" where
  "readSequenceEntry s0 =
     (let (uiGi, s1) = get_unsigned 32 s0 0;
          (sNm, s2) = get_string s1 [];
          (sCm, s3) = getline s2 [];
          (uiStart, s4) = get_unsigned 64 s3 0;
          (uiLen, s5) = get_unsigned 64 s4 0;
          (iHoles, s6) = get_signed 32 s5 0
      in (\<lparr> sName = sNm, sComment = sCm, uiStartOffsetUnpacked = uiStart,
            uiLengthUnpacked = uiLen, gi = uiGi, uiNumberOfHoles = iHoles \<rparr>, s6))"

text \<open>One round of the loop of \<open>vLoadHoleDescriptorVector\<close>.\<close>

definition readHoleEntry :: "istream \<Rightarrow> HoleDescriptor \<times> istream" where
  "readHoleEntry s0 =
     (let (uiOffset, s1) = get_unsigned 64 s0 0;
          (iLength, s2) = get_signed 32 s1 0;
          (xChar, s3) = get_char s2 (CHR 0x00)
      in (\<lparr> offset = uiOffset, hole_length = iLength, xHoleCharacter = xChar \<rparr>, s3))"

text \<open>
  The two loops \<open>while( true )\<close>: an entry is read and appended until an extraction
  fails. Each successful round reads at least one digit, so the loops end.
\<close>

function loadSequenceDescriptors ::
    "istream \<Rightarrow> SequenceInPack list \<Rightarrow> SequenceInPack list \<times> istream"
  and loadHoleDescriptors ::
    "istream \<Rightarrow> HoleDescriptor list \<Rightarrow> HoleDescriptor list \<times> istream" where
  "loadSequenceDescriptors s v =
     (case readSequenceEntry s of
        (rxEntry, s') \<Rightarrow>
          if \<not> failbit s' then loadSequenceDescriptors s' (v @ [rxEntry]) else (v, s'))"
| "loadHoleDescriptors s v =
     (case readHoleEntry s of
        (rxEntry, s') \<Rightarrow>
          if \<not> failbit s' then loadHoleDescriptors s' (v @ [rxEntry]) else (v, s'))"
  by pat_completeness auto
termination
proof -
  have dl: "length (dropWhile P xs) \<le> length xs" for P :: "char \<Rightarrow> bool" and xs
    by (rule length_dropWhile_le)
  have dw: "length (dropWhile P xs) < length xs" if "takeWhile P xs \<noteq> []"
    for P :: "char \<Rightarrow> bool" and xs
    using that by (cases xs) (auto simp add: less_Suc_eq_le dl split: if_splits)
  have tdl: "length (tl (dropWhile P xs)) \<le> length xs" for P :: "char \<Rightarrow> bool" and xs
    using dl [of P xs] by simp
  have sen: "length (buf (snd (sentry b t))) \<le> length (buf t)
           \<and> (failbit t \<longrightarrow> \<not> fst (sentry b t))
           \<and> (\<not> fst (sentry b t) \<longrightarrow> failbit (snd (sentry b t)))" for b t
    by (simp add: sentry_def good_def dl)
  have ng: "length (buf (snd (num_get t))) \<le> length (buf t)
          \<and> (fst (num_get t) = None \<longrightarrow> failbit (snd (num_get t)))
          \<and> (fst (num_get t) \<noteq> None \<longrightarrow> length (buf (snd (num_get t))) < length (buf t))"
    for t
  proof -
    define b1 where "b1 = (if buf t \<noteq> [] \<and> (hd (buf t) = CHR ''-'' \<or> hd (buf t) = CHR ''+'')
                           then tl (buf t) else buf t)"
    have b1: "length b1 \<le> length (buf t)" by (simp add: b1_def)
    have n: "num_get t =
        (if takeWhile isdigit b1 = []
         then (None, t\<lparr> buf := dropWhile isdigit b1, eofbit := (dropWhile isdigit b1 = []),
                        failbit := True \<rparr>)
         else (Some (buf t \<noteq> [] \<and> hd (buf t) = CHR ''-'', decimal (takeWhile isdigit b1)),
               t\<lparr> buf := dropWhile isdigit b1, eofbit := (dropWhile isdigit b1 = []) \<rparr>))"
      by (simp add: num_get_def Let_def b1_def)
    show ?thesis
    proof (cases "takeWhile isdigit b1 = []")
      case True
      then show ?thesis using b1 dl [of isdigit b1] by (simp add: n)
    next
      case False
      then show ?thesis using b1 dw [of isdigit b1] by (simp add: n)
    qed
  qed
  have gu: "length (buf (snd (get_unsigned w t y))) \<le> length (buf t)
          \<and> (failbit t \<longrightarrow> failbit (snd (get_unsigned w t y)))
          \<and> (\<not> failbit (snd (get_unsigned w t y)) \<longrightarrow>
               length (buf (snd (get_unsigned w t y))) < length (buf t))" for w t y
  proof -
    obtain b t1 where s: "sentry False t = (b, t1)" by (cases "sentry False t")
    obtain r t2 where n: "num_get t1 = (r, t2)" by (cases "num_get t1")
    from sen [of False t] s have 1: "length (buf t1) \<le> length (buf t)" "failbit t \<longrightarrow> \<not> b"
      "\<not> b \<longrightarrow> failbit t1" by simp_all
    from ng [of t1] n have 2: "length (buf t2) \<le> length (buf t1)" "r = None \<longrightarrow> failbit t2"
      "r \<noteq> None \<longrightarrow> length (buf t2) < length (buf t1)" by simp_all
    show ?thesis
      using 1 2 by (cases b; cases r) (auto simp add: get_unsigned_def s n)
  qed
  have gs: "length (buf (snd (get_signed w t y))) \<le> length (buf t)
          \<and> (failbit t \<longrightarrow> failbit (snd (get_signed w t y)))" for w t y
  proof -
    obtain b t1 where s: "sentry False t = (b, t1)" by (cases "sentry False t")
    obtain r t2 where n: "num_get t1 = (r, t2)" by (cases "num_get t1")
    from sen [of False t] s have 1: "length (buf t1) \<le> length (buf t)" "failbit t \<longrightarrow> \<not> b"
      "\<not> b \<longrightarrow> failbit t1" by simp_all
    from ng [of t1] n have 2: "length (buf t2) \<le> length (buf t1)" by simp
    show ?thesis
      using 1 2 by (cases b; cases r) (auto simp add: get_signed_def s n)
  qed
  have gst: "length (buf (snd (get_string t y))) \<le> length (buf t)
          \<and> (failbit t \<longrightarrow> failbit (snd (get_string t y)))" for t y
  proof -
    obtain b t1 where s: "sentry False t = (b, t1)" by (cases "sentry False t")
    from sen [of False t] s have 1: "length (buf t1) \<le> length (buf t)" "failbit t \<longrightarrow> \<not> b"
      "\<not> b \<longrightarrow> failbit t1" by simp_all
    show ?thesis
      using 1 dl [of "\<lambda>c. \<not> isspace c" "buf t1"] by (cases b) (simp_all add: get_string_def s)
  qed
  have gl: "length (buf (snd (getline t y))) \<le> length (buf t)
          \<and> (failbit t \<longrightarrow> failbit (snd (getline t y)))" for t y
  proof -
    obtain b t1 where s: "sentry True t = (b, t1)" by (cases "sentry True t")
    from sen [of True t] s have 1: "length (buf t1) \<le> length (buf t)" "failbit t \<longrightarrow> \<not> b"
      "\<not> b \<longrightarrow> failbit t1" by simp_all
    show ?thesis
      using 1 tdl [of "\<lambda>c. c \<noteq> CHR 0x0A" "buf t1"] by (cases b) (simp_all add: getline_def s)
  qed
  have gc: "length (buf (snd (get_char t y))) \<le> length (buf t)
          \<and> (failbit t \<longrightarrow> failbit (snd (get_char t y)))" for t y
  proof -
    obtain b t1 where s: "sentry False t = (b, t1)" by (cases "sentry False t")
    from sen [of False t] s have 1: "length (buf t1) \<le> length (buf t)" "failbit t \<longrightarrow> \<not> b"
      "\<not> b \<longrightarrow> failbit t1" by simp_all
    show ?thesis
      using 1 by (cases b) (simp_all add: get_char_def s)
  qed
  have seq: "length (buf s') < length (buf s)"
    if r: "readSequenceEntry s = (rxEntry, s')" and ok: "\<not> failbit s'" for s rxEntry s'
  proof -
    define s1 where "s1 = snd (get_unsigned 32 s 0)"
    define s2 where "s2 = snd (get_string s1 [])"
    define s3 where "s3 = snd (getline s2 [])"
    define s4 where "s4 = snd (get_unsigned 64 s3 0)"
    define s5 where "s5 = snd (get_unsigned 64 s4 0)"
    have s': "s' = snd (get_signed 32 s5 0)"
      using r by (simp add: readSequenceEntry_def s1_def s2_def s3_def s4_def s5_def
          split: prod.splits)
    have "\<not> failbit s5" using ok gs [of 32 s5 0] by (auto simp add: s')
    then have "\<not> failbit s4" using gu [of 64 s4 0] by (auto simp add: s5_def)
    then have "\<not> failbit s3" using gu [of 64 s3 0] by (auto simp add: s4_def)
    then have "\<not> failbit s2" using gl [of s2 "[]"] by (auto simp add: s3_def)
    then have "\<not> failbit s1" using gst [of s1 "[]"] by (auto simp add: s2_def)
    then have "length (buf s1) < length (buf s)" using gu [of 32 s 0] by (auto simp add: s1_def)
    moreover have "length (buf s2) \<le> length (buf s1)" using gst [of s1 "[]"] by (simp add: s2_def)
    moreover have "length (buf s3) \<le> length (buf s2)" using gl [of s2 "[]"] by (simp add: s3_def)
    moreover have "length (buf s4) \<le> length (buf s3)" using gu [of 64 s3 0] by (simp add: s4_def)
    moreover have "length (buf s5) \<le> length (buf s4)" using gu [of 64 s4 0] by (simp add: s5_def)
    moreover have "length (buf s') \<le> length (buf s5)" using gs [of 32 s5 0] by (simp add: s')
    ultimately show ?thesis by simp
  qed
  have hole: "length (buf s') < length (buf s)"
    if r: "readHoleEntry s = (rxEntry, s')" and ok: "\<not> failbit s'" for s rxEntry s'
  proof -
    define s1 where "s1 = snd (get_unsigned 64 s 0)"
    define s2 where "s2 = snd (get_signed 32 s1 0)"
    have s': "s' = snd (get_char s2 (CHR 0x00))"
      using r by (simp add: readHoleEntry_def s1_def s2_def split: prod.splits)
    have "\<not> failbit s2" using ok gc [of s2 "CHR 0x00"] by (auto simp add: s')
    then have "\<not> failbit s1" using gs [of 32 s1 0] by (auto simp add: s2_def)
    then have "length (buf s1) < length (buf s)" using gu [of 64 s 0] by (auto simp add: s1_def)
    moreover have "length (buf s2) \<le> length (buf s1)" using gs [of 32 s1 0] by (simp add: s2_def)
    moreover have "length (buf s') \<le> length (buf s2)"
      using gc [of s2 "CHR 0x00"] by (simp add: s')
    ultimately show ?thesis by simp
  qed
  show ?thesis
  proof (relation "measure (\<lambda>x. case x of Inl (s, v) \<Rightarrow> length (buf s)
                                         | Inr (s, v) \<Rightarrow> length (buf s))")
    show "wf (measure (\<lambda>x. case x of Inl (s, v) \<Rightarrow> length (buf s)
                                    | Inr (s, v) \<Rightarrow> length (buf s)))"
      by simp
  next
    fix s :: istream and v :: "SequenceInPack list" and rxEntry s'
    assume "(rxEntry, s') = readSequenceEntry s" and ok: "\<not> failbit s'"
    then have "readSequenceEntry s = (rxEntry, s')" by simp
    from seq [OF this ok]
    show "(Inl (s', v @ [rxEntry]), Inl (s, v))
            \<in> measure (\<lambda>x. case x of Inl (s, v) \<Rightarrow> length (buf s)
                                   | Inr (s, v) \<Rightarrow> length (buf s))"
      by simp
  next
    fix s :: istream and v :: "HoleDescriptor list" and rxEntry s'
    assume "(rxEntry, s') = readHoleEntry s" and ok: "\<not> failbit s'"
    then have "readHoleEntry s = (rxEntry, s')" by simp
    from hole [OF this ok]
    show "(Inr (s', v @ [rxEntry]), Inr (s, v))
            \<in> measure (\<lambda>x. case x of Inl (s, v) \<Rightarrow> length (buf s)
                                   | Inr (s, v) \<Rightarrow> length (buf s))"
      by simp
  qed
qed

declare loadSequenceDescriptors.simps [simp del]
declare loadHoleDescriptors.simps [simp del]

text \<open>
  \<open>vLoadSequenceDescriptorVector\<close> and \<open>vLoadHoleDescriptorVector\<close>: the head line,
  the entries, and the test that the input was read to its end and holds as many
  entries as the head line says. \<open>size_t\<close> has 64 bits.
\<close>

definition vLoadSequenceDescriptorVector :: "string \<Rightarrow> Pack \<Rightarrow> load_error + Pack" where
  "vLoadSequenceDescriptorVector file p =
     (let (uiSize, s1) = get_unsigned 64 (ifstream file) (uiUnpackedSizeForwardStrand p);
          (uiExpectedVectorSize, s2) = get_unsigned 64 s1 0;
          (uiSeed, s3) = get_unsigned 32 s2 (seed p);
          (v, s4) = loadSequenceDescriptors s3 (xVectorOfSequenceDescriptors p)
      in if \<not> eofbit s4 \<or> uiExpectedVectorSize \<noteq> length v
         then Inl IncompleteSequenceDescriptors
         else Inr (p\<lparr> uiUnpackedSizeForwardStrand := uiSize, seed := uiSeed,
                       xVectorOfSequenceDescriptors := v \<rparr>))"

definition vLoadHoleDescriptorVector :: "string \<Rightarrow> Pack \<Rightarrow> load_error + Pack" where
  "vLoadHoleDescriptorVector file p =
     (let (uiSizeOfSingleStrand, s1) = get_unsigned 64 (ifstream file) 0;
          (uiExpectedSequenceDescriptorVectorSize, s2) = get_unsigned 64 s1 0;
          (uiExpectedHoleDescriptorVectorSize, s3) = get_unsigned 64 s2 0;
          (v, s4) = loadHoleDescriptors s3 (xVectorOfHoleDescriptors p)
      in if \<not> eofbit s4 \<or> uiExpectedHoleDescriptorVectorSize \<noteq> length v
         then Inl IncompleteHoleDescriptors
         else Inr (p\<lparr> xVectorOfHoleDescriptors := v \<rparr>))"

text \<open>\<open>vLoadCollection\<close>, called on a pack as the default constructor leaves it.\<close>

definition vLoadCollection :: "PackFiles \<Rightarrow> Pack \<Rightarrow> load_error + Pack" where
  "vLoadCollection files p =
     (case (pacFile files, annFile files, ambFile files) of
        (Some xPac, Some xAnn, Some xAmb) \<Rightarrow>
          (case vLoadSequenceDescriptorVector xAnn p of
             Inl e \<Rightarrow> Inl e
           | Inr p1 \<Rightarrow>
               (case vLoadPackedSequence (Some xPac) (uiUnpackedSizeForwardStrand p1) p1 of
                  Inl e \<Rightarrow> Inl e
                | Inr p2 \<Rightarrow> vLoadHoleDescriptorVector xAmb p2))
      | _ \<Rightarrow> Inl NonExistingPack)"

subsection \<open>Building a pack\<close>

text \<open>The default constructor; \<open>uiTime\<close> is the value of \<open>time(NULL)\<close>.\<close>

definition newPack :: "nat \<Rightarrow> Pack" where
  "newPack uiTime =
     \<lparr> bPackComprisesReverseStrand = False, xVectorOfSequenceDescriptors = [],
       xVectorOfHoleDescriptors = [], xPackedNucSeqs = [], seed = uiTime mod 2 ^ 32,
       uiUnpackedSizeForwardStrand = 0 \<rparr>"

text \<open>
  The loop of \<open>vAppendSequence\<close> over the symbols of the sequence. The state is the
  pack, the descriptor under construction, \<open>uiOffsetDistance\<close>, \<open>uiPreviousSymbolCode\<close>
  and the number of calls made to \<open>rand()\<close>, whose \<open>k\<close>-th result is \<open>rnd k\<close>. The
  symbol is held in an \<open>unsigned int\<close>; \<open>(~n & 3) << 1\<close> is \<open>2 * (3 - n mod 4)\<close>, and a
  left shift is a multiplication, cut to 8 bits when stored. The counters of the pack
  are taken without wrap-around.
\<close>

fun appendLoop ::
  "(nat \<Rightarrow> nat) \<Rightarrow> 8 word list \<Rightarrow> Pack \<Rightarrow> SequenceInPack \<Rightarrow> nat \<Rightarrow> nat \<Rightarrow> nat
     \<Rightarrow> Pack \<times> SequenceInPack \<times> nat" where
  "appendLoop rnd [] p d uiOffsetDistance uiPreviousSymbolCode k = (p, d, k)"
| "appendLoop rnd (x # rest) p d uiOffsetDistance uiPreviousSymbolCode k =
     (let uiSymbolCode = unat x;
          xHoles = xVectorOfHoleDescriptors p;
          xBytes = xPackedNucSeqs p;
          xHoles' =
            (if uiSymbolCode \<ge> 4
             then (if uiPreviousSymbolCode = uiSymbolCode
                   then xHoles[length xHoles - 1 :=
                          (last xHoles)\<lparr> hole_length := hole_length (last xHoles) + 1 \<rparr>]
                   else xHoles @ [\<lparr> offset = uiOffsetDistance, hole_length = 1,
                                    xHoleCharacter = CHR ''N'' \<rparr>])
             else xHoles);
          d' = (if uiSymbolCode \<ge> 4 \<and> uiPreviousSymbolCode \<noteq> uiSymbolCode
                then d\<lparr> uiNumberOfHoles := uiNumberOfHoles d + 1 \<rparr> else d);
          uiCode = (if uiSymbolCode \<ge> 4 then rnd k mod 4 else uiSymbolCode);
          k' = (if uiSymbolCode \<ge> 4 then k + 1 else k);
          uiShift = 2 * (3 - uiUnpackedSizeForwardStrand p mod 4);
          xBytes' =
            (if uiShift = 6 then xBytes @ [word_of_nat (uiCode * 2 ^ uiShift)]
             else xBytes[length xBytes - 1 := last xBytes OR word_of_nat (uiCode * 2 ^ uiShift)])
      in appendLoop rnd rest
           (p\<lparr> xVectorOfHoleDescriptors := xHoles', xPackedNucSeqs := xBytes',
                uiUnpackedSizeForwardStrand := uiUnpackedSizeForwardStrand p + 1 \<rparr>)
           d' (uiOffsetDistance + 1) uiSymbolCode k')"

text \<open>
  \<open>vAppendSequence\<close>; the constructor of the descriptor stores \<open>none\<close> for an empty
  comment. The result is the pack and the number of calls made to \<open>rand()\<close>.
\<close>

definition vAppendSequence ::
  "(nat \<Rightarrow> nat) \<Rightarrow> nat \<Rightarrow> string \<Rightarrow> string \<Rightarrow> 8 word list \<Rightarrow> Pack \<Rightarrow> Pack \<times> nat" where
  "vAppendSequence rnd k rsName rsComment rxSequence p =
     (if rxSequence = [] then (p, k)
      else
        (let uiOffsetDistance =
               (if xVectorOfSequenceDescriptors p = [] then 0
                else uiStartOffsetUnpacked (last (xVectorOfSequenceDescriptors p))
                     + uiLengthUnpacked (last (xVectorOfSequenceDescriptors p)));
             d = \<lparr> sName = rsName,
                   sComment = (if rsComment = [] then ''none'' else rsComment),
                   uiStartOffsetUnpacked = uiOffsetDistance,
                   uiLengthUnpacked = length rxSequence, gi = 0, uiNumberOfHoles = 0 \<rparr>
         in case appendLoop rnd rxSequence p d uiOffsetDistance 0 k of
              (p', d', k') \<Rightarrow>
                (p'\<lparr> xVectorOfSequenceDescriptors := xVectorOfSequenceDescriptors p' @ [d'] \<rparr>,
                 k')))"

text \<open>
  A pack built by appending sequences: the default constructor followed by one call of
  \<open>vAppendSequence\<close> for each triple of name, comment and sequence.
\<close>

fun appendSequences ::
  "(nat \<Rightarrow> nat) \<Rightarrow> nat \<Rightarrow> (string \<times> string \<times> 8 word list) list \<Rightarrow> Pack \<Rightarrow> Pack" where
  "appendSequences rnd k [] p = p"
| "appendSequences rnd k ((rsName, rsComment, rxSequence) # rest) p =
     (case vAppendSequence rnd k rsName rsComment rxSequence p of
        (p', k') \<Rightarrow> appendSequences rnd k' rest p')"

text \<open>
  What the text files can carry: a name is one word, a comment one line, and a hole
  character is not white space.
\<close>

definition oneWord :: "string \<Rightarrow> bool" where
  "oneWord w \<longleftrightarrow> w \<noteq> [] \<and> list_all (\<lambda>c. \<not> isspace c) w"

definition oneLine :: "string \<Rightarrow> bool" where
  "oneLine l \<longleftrightarrow> list_all (\<lambda>c. c \<noteq> CHR 0x0A) l"

text \<open>
  The counters of a pack fit their C++ types: \<open>uint64_t\<close> for sizes and offsets,
  \<open>uint32_t\<close> for \<open>gi\<close> and the seed, \<open>int32_t\<close> for the number and length of holes.
\<close>

definition fitsTypes :: "Pack \<Rightarrow> bool" where
  "fitsTypes p \<longleftrightarrow>
     uiUnpackedSizeForwardStrand p < 2 ^ 64
     \<and> seed p < 2 ^ 32
     \<and> length (xVectorOfSequenceDescriptors p) < 2 ^ 64
     \<and> length (xVectorOfHoleDescriptors p) < 2 ^ 64
     \<and> list_all (\<lambda>d. gi d < 2 ^ 32 \<and> uiStartOffsetUnpacked d < 2 ^ 64
                     \<and> uiLengthUnpacked d < 2 ^ 64
                     \<and> - (2 ^ 31) \<le> uiNumberOfHoles d \<and> uiNumberOfHoles d < 2 ^ 31)
         (xVectorOfSequenceDescriptors p)
     \<and> list_all (\<lambda>h. offset h < 2 ^ 64
                     \<and> - (2 ^ 31) \<le> hole_length h \<and> hole_length h < 2 ^ 31)
         (xVectorOfHoleDescriptors p)"

definition textual :: "Pack \<Rightarrow> bool" where
  "textual p \<longleftrightarrow>
     list_all (\<lambda>d. oneWord (sName d) \<and> oneLine (sComment d)) (xVectorOfSequenceDescriptors p)
     \<and> list_all (\<lambda>h. \<not> isspace (xHoleCharacter h)) (xVectorOfHoleDescriptors p)"

text \<open>The packed bytes hold four bases each.\<close>

definition wellPacked :: "Pack \<Rightarrow> bool" where
  "wellPacked p \<longleftrightarrow>
     length (xPackedNucSeqs p)
       = uiUnpackedSizeForwardStrand p div 4
         + (if uiUnpackedSizeForwardStrand p mod 4 = 0 then 0 else 1)"

text \<open>
  A descriptor as it is read back: \<open>getline\<close> reads the comment from the end of the
  name, so the blank that separates the two is its first character.
\<close>

definition asLoaded :: "SequenceInPack \<Rightarrow> SequenceInPack" where
  "asLoaded d = d\<lparr> sComment := CHR '' '' # sComment d \<rparr>"

section \<open>Intervals and seeds (geom.h, seed.h)\<close>

text \<open>
  \<open>Interval<T>\<close> holds a start and a size. A \<open>Seed\<close> is an
  \<open>Interval<nucSeqIndex>\<close> on the query together with its position on the reference;
  the later version of seed.h adds the strand and bookkeeping fields. Positions and
  sizes of seeds index sequences held in memory; their sums are taken without
  wrap-around, differences that can go below zero are written with it.
\<close>

record 'a Interval =
  iStart :: 'a
  iSize :: 'a

record Seed0 = "nat Interval" +
  uiPosOnReference :: nat

record Seed = Seed0 +
  uiAmbiguity :: nat
  uiSoCNt :: nat
  bOnForwStrand :: bool
  uiDelta :: nat

definition start :: "('a, 'b) Interval_scheme \<Rightarrow> 'a" where
  "start i = iStart i"

definition size' :: "('a, 'b) Interval_scheme \<Rightarrow> 'a" where
  "size' i = iSize i"

definition end' :: "('a::plus, 'b) Interval_scheme \<Rightarrow> 'a" where
  "end' i = iStart i + iSize i"

definition start_ref :: "'b Seed0_scheme \<Rightarrow> nat" where
  "start_ref s = uiPosOnReference s"

definition end_ref :: "'b Seed0_scheme \<Rightarrow> nat" where
  "end_ref s = uiPosOnReference s + size' s"

text \<open>\<open>Seed::operator==\<close> of the later seed.h: query interval, reference position, strand.\<close>

definition seed_eq :: "Seed \<Rightarrow> Seed \<Rightarrow> bool" where
  "seed_eq a b \<longleftrightarrow>
     (iStart a = iStart b \<and> iSize a = iSize b) \<and> uiPosOnReference a = uiPosOnReference b
     \<and> bOnForwStrand a = bOnForwStrand b"

text \<open>The four-argument constructor: ambiguity 0, SoC count 0, delta 0.\<close>

definition mkSeed :: "nat \<Rightarrow> nat \<Rightarrow> nat \<Rightarrow> bool \<Rightarrow> Seed" where
  "mkSeed uiPosOnQuery uiLength uiPosOnRef bForw =
     \<lparr> iStart = uiPosOnQuery, iSize = uiLength, uiPosOnReference = uiPosOnRef,
       uiAmbiguity = 0, uiSoCNt = 0, bOnForwStrand = bForw, uiDelta = 0 \<rparr>"

definition mkSeed0 :: "nat \<Rightarrow> nat \<Rightarrow> nat \<Rightarrow> Seed0" where
  "mkSeed0 uiPosOnQuery uiLength uiPosOnRef =
     \<lparr> iStart = uiPosOnQuery, iSize = uiLength, uiPosOnReference = uiPosOnRef \<rparr>"

section \<open>Shadows of the line sweep (linesweep.cpp)\<close>

text \<open>
  \<open>ShadowInterval(iBegin, iSize, pSeed)\<close> is an \<open>Interval<int64_t>\<close> carrying its seed
  (harmonization.h); the arguments computed in \<open>uint64_t\<close> are converted on the call.
\<close>

record ShadowInterval = "int Interval" +
  pSeed :: Seed0

definition mkShadowInterval :: "nat \<Rightarrow> nat \<Rightarrow> Seed0 \<Rightarrow> ShadowInterval" where
  "mkShadowInterval iBegin iSz s =
     \<lparr> iStart = i64 (int iBegin), iSize = i64 (int iSz), pSeed = s \<rparr>"

definition getLeftShadow :: "nat \<Rightarrow> Seed0 \<Rightarrow> nat \<Rightarrow> ShadowInterval" where
  "getLeftShadow uiBucketStart s uiQueryLength =
     mkShadowInterval (start s)
       (u64 (int (end_ref s) - int (start s) + int uiQueryLength)) s"

definition getRightShadow :: "nat \<Rightarrow> Seed0 \<Rightarrow> nat \<Rightarrow> ShadowInterval" where
  "getRightShadow iBucketStart s iRefSize =
     mkShadowInterval (start_ref s)
       (u64 (int (end' s) - int (start_ref s) + int iRefSize)) s"

section \<open>Seed lumping (harmonization.h)\<close>

text \<open>
  \<open>SeedLumping::execute\<close> reads \<open>pIn->front()\<close> first; on an empty vector this is an
  access outside the container, which the model reports as an error value.
\<close>

datatype access_error = OutOfBoundsAccess

definition seedDelta :: "Seed \<Rightarrow> int" where
  "seedDelta s = i64 (int (start_ref s) - int (start s))"

text \<open>
  The loop over the remaining input: \<open>pRet\<close> is never empty here, and \<open>iDelta\<close> is the
  delta of the seed pushed last.
\<close>

fun lumpLoop :: "int \<Rightarrow> Seed list \<Rightarrow> Seed list \<Rightarrow> Seed list" where
  "lumpLoop iDelta pRet [] = pRet"
| "lumpLoop iDelta pRet (x # xs) =
     (let iNewDelta = seedDelta x in
      if iDelta = iNewDelta \<and> start x \<le> end' (last pRet)
      then (if end' x > end' (last pRet)
            then lumpLoop iDelta
                   (butlast pRet @
                     [(last pRet)\<lparr> iSize := iSize (last pRet) + (end' x - end' (last pRet)) \<rparr>]) xs
            else lumpLoop iDelta pRet xs)
      else lumpLoop iNewDelta (pRet @ [x]) xs)"

definition SeedLumping_execute :: "Seed list \<Rightarrow> access_error + Seed list" where
  "SeedLumping_execute pIn =
     (case pIn of
        [] \<Rightarrow> Inl OutOfBoundsAccess
      | x # xs \<Rightarrow> Inr (lumpLoop (seedDelta x) [x] xs))"

text \<open>
  Notions used to state what the lumping returns: the seed at the back of \<open>pRet\<close>
  after absorbing \<open>x\<close>; the triple a seed is identified by (query start, reference
  start, size); and two seeds that the loop keeps apart (different delta, or a gap on
  the query).
\<close>

definition grow :: "Seed \<Rightarrow> Seed \<Rightarrow> Seed" where
  "grow b x = (if end' x > end' b then b\<lparr> iSize := iSize b + (end' x - end' b) \<rparr> else b)"

definition seedKey :: "Seed \<Rightarrow> nat \<times> nat \<times> nat" where
  "seedKey s = (start s, start_ref s, size' s)"

definition separated :: "Seed \<Rightarrow> Seed \<Rightarrow> bool" where
  "separated a b \<longleftrightarrow> seedDelta a \<noteq> seedDelta b \<or> end' a < start b"

section \<open>Gap filling between seeds (needlemanWunsch.cpp)\<close>

datatype MatchType = Match | Missmatch | Insertion | Deletion | SeedType

text \<open>
  Modelled from the spec: the \<open>Alignment\<close> container (alignment.h) is not part of the
  sources at hand. The spec describes it as a sequence of \<open>{MatchType, length}\<close> runs
  with the reference interval it covers. The model keeps one entry per aligned
  position, so \<open>append(type)\<close> adds one entry and \<open>append(type, n)\<close> adds \<open>n\<close> of them.
\<close>

record Alignment =
  data :: "MatchType list"
  uiBeginOnRef :: nat
  uiEndOnRef :: nat

definition mkAlignment :: "nat \<Rightarrow> nat \<Rightarrow> Alignment" where
  "mkAlignment b e = \<lparr> data = [], uiBeginOnRef = b, uiEndOnRef = e \<rparr>"

definition append1 :: "Alignment \<Rightarrow> MatchType \<Rightarrow> Alignment" where
  "append1 a t = a\<lparr> data := data a @ [t] \<rparr>"

definition appendN :: "Alignment \<Rightarrow> MatchType \<Rightarrow> nat \<Rightarrow> Alignment" where
  "appendN a t n = a\<lparr> data := data a @ replicate n t \<rparr>"

text \<open>The scores are global variables of the translation unit.\<close>

definition iDeletion :: int where "iDeletion = - 50"
definition iInsertion :: int where "iInsertion = - 50"
definition iDeletionContinued :: int where "iDeletionContinued = - 1"
definition iInsertionContinued :: int where "iInsertionContinued = - 1"
definition iMatch :: int where "iMatch = 20"
definition iMissMatch :: int where "iMissMatch = - 5"

text \<open>
  The cell \<open>(s[i][j], dir[i][j])\<close> of the matrices that \<open>needlemanWunsch\<close> fills row by
  row; every cell is written before it is read, so the value of a cell is a function of
  its indices. Directions: 1 match or mismatch, 2 insertion, 3 deletion.
\<close>

fun nwCell :: "8 word list \<Rightarrow> 8 word list \<Rightarrow> nat \<Rightarrow> nat \<Rightarrow> nat \<Rightarrow> nat \<Rightarrow> nat \<Rightarrow> int \<times> nat" where
  "nwCell q r fromQuery toQuery toRef 0 0 = (0, 1)"
| "nwCell q r fromQuery toQuery toRef (Suc i) 0 =
     (if i = 0 then (iInsertion, 2)
      else (fst (nwCell q r fromQuery toQuery toRef i 0) + iInsertionContinued, 2))"
| "nwCell q r fromQuery toQuery toRef 0 (Suc j) =
     (if j = 0 then (iDeletion, 3)
      else (fst (nwCell q r fromQuery toQuery toRef 0 j) + iDeletionContinued, 3))"
| "nwCell q r fromQuery toQuery toRef (Suc i) (Suc j) =
     (let up = nwCell q r fromQuery toQuery toRef i (Suc j);
          left = nwCell q r fromQuery toQuery toRef (Suc i) j;
          diag = nwCell q r fromQuery toQuery toRef i j;
          ins = (if snd up = 2 then fst up + iInsertionContinued else fst up + iInsertion);
          del0 = (if snd left = 3 then fst left + iDeletionContinued else fst left + iDeletion);
          del = (if fromQuery = 0 \<and> Suc i = toQuery - fromQuery then fst left else del0);
          c = (if del > ins then (del, 3) else (ins, 2));
          m = fst diag + (if q ! (toQuery - Suc i) = r ! (toRef - Suc j) then iMatch else iMissMatch)
      in if m \<ge> fst c then (m, 1) else c)"

text \<open>The trace back from cell \<open>(iX, iY)\<close>; the counters are \<open>nucSeqIndex\<close>.\<close>

function nwTrace :: "8 word list \<Rightarrow> 8 word list \<Rightarrow> nat \<Rightarrow> nat \<Rightarrow> nat \<Rightarrow> nat \<Rightarrow> nat \<Rightarrow> MatchType list" where
  "nwTrace q r fromQuery toQuery toRef iX iY =
     (if iX > 0 \<or> iY > 0
      then (if snd (nwCell q r fromQuery toQuery toRef iX iY) = 1
            then (if q ! (toQuery - iX) = r ! (toRef - iY) then Match else Missmatch)
                 # nwTrace q r fromQuery toQuery toRef (u64 (int iX - 1)) (u64 (int iY - 1))
            else if snd (nwCell q r fromQuery toQuery toRef iX iY) = 3
            then Deletion # nwTrace q r fromQuery toQuery toRef iX (u64 (int iY - 1))
            else Insertion # nwTrace q r fromQuery toQuery toRef (u64 (int iX - 1)) iY)
      else [])"
  by pat_completeness auto
termination
proof -
  have nwCell_border:
    "0 < iY \<Longrightarrow> snd (nwCell q r fromQuery toQuery toRef 0 iY) = 3"
    "0 < iX \<Longrightarrow> snd (nwCell q r fromQuery toQuery toRef iX 0) = 2"
    for q r fromQuery toQuery toRef iX iY
    by (cases iY; simp) (cases iX; simp)
  show ?thesis
proof (relation "measure (\<lambda>(q, r, fromQuery, toQuery, toRef, iX, iY). iX + iY)")
  show "wf (measure (\<lambda>(q, r, fromQuery, toQuery, toRef, iX, iY). iX + iY))" by simp
next
  fix q r :: "8 word list" and fromQuery toQuery toRef iX iY :: nat
  assume "0 < iX \<or> 0 < iY" and d: "snd (nwCell q r fromQuery toQuery toRef iX iY) = 1"
  then have "0 < iX" "0 < iY"
    using nwCell_border [of iY q r fromQuery toQuery toRef] nwCell_border [of iX q r fromQuery toQuery toRef]
    by (cases "iX = 0"; cases "iY = 0"; simp)+
  then have "u64 (int iX - 1) < iX" "u64 (int iY - 1) < iY"
    by (simp_all add: u64_def nat_less_iff zmod_le_nonneg_dividend [THEN order_le_less_trans])
  then show "((q, r, fromQuery, toQuery, toRef, u64 (int iX - 1), u64 (int iY - 1)),
              (q, r, fromQuery, toQuery, toRef, iX, iY))
             \<in> measure (\<lambda>(q, r, fromQuery, toQuery, toRef, iX, iY). iX + iY)"
    by simp
next
  fix q r :: "8 word list" and fromQuery toQuery toRef iX iY :: nat
  assume "0 < iX \<or> 0 < iY" and d: "snd (nwCell q r fromQuery toQuery toRef iX iY) = 3"
  then have "0 < iY"
    using nwCell_border(2) [of iX q r fromQuery toQuery toRef] by (cases "iY = 0"; simp)
  then have "u64 (int iY - 1) < iY"
    by (simp add: u64_def nat_less_iff zmod_le_nonneg_dividend [THEN order_le_less_trans])
  then show "((q, r, fromQuery, toQuery, toRef, iX, u64 (int iY - 1)),
              (q, r, fromQuery, toQuery, toRef, iX, iY))
             \<in> measure (\<lambda>(q, r, fromQuery, toQuery, toRef, iX, iY). iX + iY)"
    by simp
next
  fix q r :: "8 word list" and fromQuery toQuery toRef iX iY :: nat
  assume "0 < iX \<or> 0 < iY" and d: "snd (nwCell q r fromQuery toQuery toRef iX iY) \<noteq> 1"
    "snd (nwCell q r fromQuery toQuery toRef iX iY) \<noteq> 3"
  then have "0 < iX"
    using nwCell_border(1) [of iY q r fromQuery toQuery toRef] by (cases "iX = 0"; simp)
  then have "u64 (int iX - 1) < iX"
    by (simp add: u64_def nat_less_iff zmod_le_nonneg_dividend [THEN order_le_less_trans])
  then show "((q, r, fromQuery, toQuery, toRef, u64 (int iX - 1), iY),
              (q, r, fromQuery, toQuery, toRef, iX, iY))
             \<in> measure (\<lambda>(q, r, fromQuery, toQuery, toRef, iX, iY). iX + iY)"
    by simp
qed
qed

declare nwTrace.simps [simp del]

text \<open>
  \<open>needlemanWunsch\<close> returns the entries it appends to the alignment. The counters of
  the two degenerate branches are \<open>int\<close>.
\<close>

definition needlemanWunsch ::
  "8 word list \<Rightarrow> 8 word list \<Rightarrow> nat \<Rightarrow> nat \<Rightarrow> nat \<Rightarrow> nat \<Rightarrow> MatchType list" where
  "needlemanWunsch pQuery pRef fromQuery toQuery fromRef toRef =
     (if toRef \<le> fromRef \<and> toQuery \<le> fromQuery then []
      else if toQuery \<le> fromQuery
      then replicate (nat ((int toRef - int fromRef + 2 ^ 31) mod 2 ^ 32 - 2 ^ 31)) Deletion
      else if toRef \<le> fromRef
      then replicate (nat ((int toQuery - int fromQuery + 2 ^ 31) mod 2 ^ 32 - 2 ^ 31)) Insertion
      else nwTrace pQuery pRef fromQuery toQuery toRef (toQuery - fromQuery) (toRef - fromRef))"

text \<open>
  The state of the loop over the seeds of \<open>NeedlemanWunsch::execute\<close>: the ends of the
  chain so far on query and reference, and the alignment.
\<close>

record nwState =
  endOfLastSeedQuery :: nat
  endOfLastSeedReference :: nat
  pAlignment :: Alignment

definition seedStep :: "8 word list \<Rightarrow> 8 word list \<Rightarrow> nat \<Rightarrow> nwState \<Rightarrow> Seed0 \<Rightarrow> nwState" where
  "seedStep pQuery pRef beginRef st rSeed =
     (let a0 = (pAlignment st)\<lparr> data := data (pAlignment st) @
                 needlemanWunsch pQuery pRef (endOfLastSeedQuery st) (start rSeed)
                   (endOfLastSeedReference st) (u64 (int (start_ref rSeed) - int beginRef)) \<rparr>;
          ovQ0 = u64 (int (endOfLastSeedQuery st) - int (start rSeed));
          ovQ = (if start rSeed > endOfLastSeedQuery st then 0 else ovQ0);
          ovR0 = u64 (int (endOfLastSeedReference st)
                       - int (u64 (int (start_ref rSeed) - int beginRef)));
          ovR = (if start_ref rSeed > endOfLastSeedReference st + beginRef then 0 else ovR0);
          len = size' rSeed;
          overlap = max ovQ ovR;
          a1 = (if len > overlap then appendN a0 Match (len - overlap) else a0);
          a2 = (if ovQ > ovR then appendN a1 Deletion (ovQ - ovR) else a1);
          a3 = (if ovR > ovQ then appendN a2 Insertion (ovR - ovQ) else a2)
      in \<lparr> endOfLastSeedQuery =
             (if end' rSeed > endOfLastSeedQuery st then end' rSeed else endOfLastSeedQuery st),
           endOfLastSeedReference =
             (if end_ref rSeed > endOfLastSeedReference st + beginRef
              then u64 (int (end_ref rSeed) - int beginRef) else endOfLastSeedReference st),
           pAlignment = a3 \<rparr>)"

text \<open>
  The seeds are sorted by query start, then reference start (a stable sort), before
  the loop. \<open>front()\<close> of an empty seed list is an access outside the container.
\<close>

datatype nw_error = EmptySeeds | Extraction error

definition NeedlemanWunsch_execute :: "Seed0 list \<Rightarrow> 8 word list \<Rightarrow> Pack \<Rightarrow> nw_error + Alignment" where
  "NeedlemanWunsch_execute seeds pQuery pRefPack =
     (let pSeeds = sort_key (\<lambda>s. (start s, start_ref s)) seeds in
      if pSeeds = [] then Inl EmptySeeds
      else
        let beginQuery = start (hd pSeeds);
            beginRef = (if start_ref (hd pSeeds) > beginQuery * 2
                        then start_ref (hd pSeeds) - beginQuery * 2 else 0);
            endQuery = end' (last pSeeds);
            cand = end_ref (last pSeeds) + u64 (int (length pQuery) - int endQuery) * 2;
            endRef = (if cand < uiUnpackedSizeForwardPlusReverse pRefPack div 2
                      then cand else uiUnpackedSizeForwardPlusReverse pRefPack div 2)
        in case vExtract pRefPack (int beginRef) (int endRef) of
             Inl e \<Rightarrow> Inl (Extraction e)
           | Inr pRef \<Rightarrow>
               let st = foldl (seedStep pQuery pRef beginRef)
                          \<lparr> endOfLastSeedQuery = 0, endOfLastSeedReference = 0,
                            pAlignment = mkAlignment beginRef endRef \<rparr> pSeeds
               in Inr ((pAlignment st)\<lparr> data := data (pAlignment st) @
                         needlemanWunsch pQuery pRef (endOfLastSeedQuery st) (length pQuery)
                           (endOfLastSeedReference st) (endRef - beginRef) \<rparr>))"

section \<open>Contig lookup in the pack (pack.h)\<close>

definition startOfSequenceWithId :: "Pack \<Rightarrow> int \<Rightarrow> nat" where
  "startOfSequenceWithId p iSequenceId =
     uiStartOffsetUnpacked (xVectorOfSequenceDescriptors p ! nat iSequenceId)"

definition endOfSequenceWithId :: "Pack \<Rightarrow> int \<Rightarrow> nat" where
  "endOfSequenceWithId p iSequenceId =
     startOfSequenceWithId p iSequenceId
       + uiLengthUnpacked (xVectorOfSequenceDescriptors p ! nat iSequenceId)"

text \<open>
  The binary search of \<open>uiSequenceIdForPosition\<close> over the start offsets; the state of
  the loop is \<open>(uiLeft, uiMid, uiRight)\<close>, and \<open>size() - 1\<close> is computed in \<open>size_t\<close>.
\<close>

function seqIdSearch :: "SequenceInPack list \<Rightarrow> int \<Rightarrow> nat \<Rightarrow> nat \<Rightarrow> nat \<Rightarrow> nat" where
  "seqIdSearch ds iAbsPosition uiLeft uiMid uiRight =
     (if uiLeft < uiRight
      then (if iAbsPosition \<ge> i64 (int (uiStartOffsetUnpacked (ds ! ((uiLeft + uiRight) div 2))))
            then (if (uiLeft + uiRight) div 2 = u64 (int (length ds) - 1)
                  then (uiLeft + uiRight) div 2
                  else if iAbsPosition
                            < i64 (int (uiStartOffsetUnpacked (ds ! ((uiLeft + uiRight) div 2 + 1))))
                  then (uiLeft + uiRight) div 2
                  else seqIdSearch ds iAbsPosition ((uiLeft + uiRight) div 2 + 1)
                         ((uiLeft + uiRight) div 2) uiRight)
            else seqIdSearch ds iAbsPosition uiLeft ((uiLeft + uiRight) div 2)
                   ((uiLeft + uiRight) div 2))
      else uiMid)"
  by pat_completeness auto
termination
  by (relation "measure (\<lambda>(ds, iAbsPosition, uiLeft, uiMid, uiRight). uiRight - uiLeft)") auto

declare seqIdSearch.simps [simp del]

definition uiSequenceIdForPosition :: "Pack \<Rightarrow> nat \<Rightarrow> int" where
  "uiSequenceIdForPosition p uiPosition =
     int (seqIdSearch (xVectorOfSequenceDescriptors p) (iAbsolutePosition p uiPosition)
            0 0 (length (xVectorOfSequenceDescriptors p)))"

section \<open>Reseeding rectangles (svJumpsFromSeeds.cpp)\<close>

record Rectangle =
  xXAxis :: "nat Interval"
  xYAxis :: "nat Interval"

definition mkRectangle :: "nat \<Rightarrow> nat \<Rightarrow> nat \<Rightarrow> nat \<Rightarrow> Rectangle" where
  "mkRectangle iStartX iStartY iSizeX iSizeY =
     \<lparr> xXAxis = \<lparr> iStart = iStartX, iSize = iSizeX \<rparr>,
       xYAxis = \<lparr> iStart = iStartY, iSize = iSizeY \<rparr> \<rparr>"

text \<open>
  The members of \<open>SvJumpsFromSeeds\<close> that the modelled functions read. A seed argument
  is a reference; the code tells the sentinel apart by its address, so an argument is
  either the sentinel or a seed of its own, and reading a field of the sentinel reads
  \<open>xDummySeed\<close>.
\<close>

record SvConfig =
  uiMinSeedSizeSV :: nat
  uiMaxAmbiguitySv :: nat
  iMaxSizeReseed :: int
  bDoDummyJumps :: bool
  uiMinDistDummy :: nat
  uiMaxDistDummy :: nat
  xDummySeed :: Seed

datatype SeedRef = DummyRef | SeedRef Seed

definition deref :: "SvConfig \<Rightarrow> SeedRef \<Rightarrow> Seed" where
  "deref cfg r = (case r of DummyRef \<Rightarrow> xDummySeed cfg | SeedRef s \<Rightarrow> s)"

text \<open>
  \<open>(int64_t)(x * dExtraSeedingAreaFactor)\<close> with the factor 1.5 held in a \<open>double\<close>: for
  \<open>x\<close> below \<open>2^51\<close> the product is exact and its truncation is \<open>3x div 2\<close>. From
  \<open>2^52 + 1\<close> on the product is rounded, and the definition is the value of the code only
  below that; what is proved of the width of a rectangle is stated for gaps below \<open>2^51\<close>.
  \<open>iMaxSizeReseed / 2\<close> is a signed division, which truncates towards zero.
\<close>

definition timesExtraSeedingAreaFactor :: "nat \<Rightarrow> int" where
  "timesExtraSeedingAreaFactor x = int ((x * 3) div 2)"

definition halfMaxSizeReseed :: "SvConfig \<Rightarrow> int" where
  "halfMaxSizeReseed cfg =
     (if iMaxSizeReseed cfg \<ge> 0 then iMaxSizeReseed cfg div 2 else - ((- iMaxSizeReseed cfg) div 2))"

definition iQueryDistance :: "SvConfig \<Rightarrow> nat \<Rightarrow> int" where
  "iQueryDistance cfg x =
     (if timesExtraSeedingAreaFactor x > halfMaxSizeReseed cfg then halfMaxSizeReseed cfg
      else timesExtraSeedingAreaFactor x)"

definition zeroRectangles :: "Rectangle \<times> Rectangle" where
  "zeroRectangles = (mkRectangle 0 0 0 0, mkRectangle 0 0 0 0)"

text \<open>\<open>iLastRef\<close> (inclusive) and \<open>iNextRef\<close> (exclusive) of \<open>getPositionsForSeeds\<close>.\<close>

definition lastRef :: "SvConfig \<Rightarrow> Pack \<Rightarrow> SeedRef \<Rightarrow> SeedRef \<Rightarrow> nat \<Rightarrow> int" where
  "lastRef cfg pRefSeq rLast rNext uiQStart =
     (let l = deref cfg rLast; n = deref cfg rNext in
      if rLast = DummyRef
      then (if bOnForwStrand n
            then max (i64 (int (startOfSequenceWithId pRefSeq
                                  (uiSequenceIdForPosition pRefSeq (start_ref n)))))
                     (i64 (int (start_ref n) - iQueryDistance cfg (u64 (int (start n) - int uiQStart))))
            else min (i64 (int (endOfSequenceWithId pRefSeq
                                  (uiSequenceIdForPosition pRefSeq (start_ref n + 1)))))
                     (i64 (int (start_ref n) + 1
                           + iQueryDistance cfg (u64 (int (start n) - int uiQStart)))))
      else if bOnForwStrand l then i64 (int (end_ref l))
      else i64 (int (start_ref l) - int (size' l) + 1))"

definition nextRef :: "SvConfig \<Rightarrow> Pack \<Rightarrow> SeedRef \<Rightarrow> SeedRef \<Rightarrow> nat \<Rightarrow> int" where
  "nextRef cfg pRefSeq rLast rNext uiQEnd =
     (let l = deref cfg rLast; n = deref cfg rNext in
      if rNext = DummyRef
      then (if bOnForwStrand l
            then min (i64 (int (endOfSequenceWithId pRefSeq
                                  (uiSequenceIdForPosition pRefSeq (end_ref l)))))
                     (i64 (int (end_ref l) + iQueryDistance cfg (u64 (int uiQEnd - int (end' l)))))
            else max (i64 (int (startOfSequenceWithId pRefSeq
                                  (uiSequenceIdForPosition pRefSeq
                                     (u64 (int (start_ref l) + 1 - int (size' l))))))) 
                     (i64 (int (start_ref l) + 1
                           - (int (size' l) + iQueryDistance cfg (u64 (int uiQEnd - int (end' l)))))))
      else if bOnForwStrand n then i64 (int (start_ref n))
      else i64 (int (start_ref n) + 1))"

text \<open>The test that sends two real seeds to separate rectangles.\<close>

definition splitNeeded :: "SvConfig \<Rightarrow> Pack \<Rightarrow> Seed \<Rightarrow> Seed \<Rightarrow> int \<Rightarrow> int \<Rightarrow> bool" where
  "splitNeeded cfg pRefSeq l n iLastRef iNextRef =
     (let iRefSize = (if bOnForwStrand l \<and> bOnForwStrand n then iNextRef - iLastRef
                      else if \<not> bOnForwStrand l \<and> \<not> bOnForwStrand n then iLastRef - iNextRef
                      else - 1)
      in iRefSize > iMaxSizeReseed cfg \<or> iRefSize < 0
         \<or> uiSequenceIdForPosition pRefSeq (u64 iLastRef)
             \<noteq> uiSequenceIdForPosition pRefSeq (u64 (iNextRef - 1)))"

function getPositionsForSeeds ::
  "SvConfig \<Rightarrow> Pack \<Rightarrow> SeedRef \<Rightarrow> SeedRef \<Rightarrow> nat \<Rightarrow> nat \<Rightarrow> Rectangle \<times> Rectangle" where
  "getPositionsForSeeds cfg pRefSeq rLast rNext uiQStart uiQEnd =
     (if rLast \<noteq> DummyRef \<and> rNext \<noteq> DummyRef \<and> start (deref cfg rNext) < end' (deref cfg rLast)
      then zeroRectangles
      else if rLast \<noteq> DummyRef \<and> end' (deref cfg rLast) \<ge> uiQEnd then zeroRectangles
      else if rNext \<noteq> DummyRef \<and> start (deref cfg rNext) \<le> uiQStart then zeroRectangles
      else if lastRef cfg pRefSeq rLast rNext uiQStart = nextRef cfg pRefSeq rLast rNext uiQEnd
      then zeroRectangles
      else if rLast \<noteq> DummyRef \<and> rNext \<noteq> DummyRef
              \<and> splitNeeded cfg pRefSeq (deref cfg rLast) (deref cfg rNext)
                   (lastRef cfg pRefSeq rLast rNext uiQStart) (nextRef cfg pRefSeq rLast rNext uiQEnd)
      then (fst (getPositionsForSeeds cfg pRefSeq rLast DummyRef
                   (end' (deref cfg rLast)) (start (deref cfg rNext))),
            fst (getPositionsForSeeds cfg pRefSeq DummyRef rNext
                   (end' (deref cfg rLast)) (start (deref cfg rNext))))
      else
        (let iLastRef = lastRef cfg pRefSeq rLast rNext uiQStart;
             iNextRef = nextRef cfg pRefSeq rLast rNext uiQEnd;
             iRefStart = min iLastRef iNextRef;
             iRefEnd = max iLastRef iNextRef;
             iRefSize = iRefEnd - iRefStart;
             iRectQStart = (if rLast \<noteq> DummyRef then i64 (int (end' (deref cfg rLast)))
                            else i64 (int uiQStart));
             iRectQEnd = (if rNext \<noteq> DummyRef then i64 (int (start (deref cfg rNext)))
                          else i64 (int uiQEnd))
         in (mkRectangle (u64 iRefStart) (u64 iRectQStart) (u64 iRefSize)
               (u64 (iRectQEnd - iRectQStart)),
             mkRectangle 0 0 0 0)))"
  by pat_completeness auto
termination
  by (relation "measure (\<lambda>(cfg, pRefSeq, rLast, rNext, uiQStart, uiQEnd).
        if rLast \<noteq> DummyRef \<and> rNext \<noteq> DummyRef then 1 else 0)") auto

declare getPositionsForSeeds.simps [simp del]

text \<open>
  \<open>checkForDefect\<close>: the start offsets of the descriptors form a chain from 0, every
  descriptor starts before the end of the forward strand, and the chain ends there.
\<close>

fun checkDescriptors :: "nat \<Rightarrow> nat \<Rightarrow> SequenceInPack list \<Rightarrow> bool" where
  "checkDescriptors uiSize uiRunningStartOffsetUnpacked [] =
     (uiRunningStartOffsetUnpacked = uiSize)"
| "checkDescriptors uiSize uiRunningStartOffsetUnpacked (d # ds) =
     (if \<not> (uiRunningStartOffsetUnpacked < uiSize)
         \<or> \<not> (uiStartOffsetUnpacked d = uiRunningStartOffsetUnpacked)
      then False
      else checkDescriptors uiSize (uiRunningStartOffsetUnpacked + uiLengthUnpacked d) ds)"

definition checkForDefect :: "Pack \<Rightarrow> bool" where
  "checkForDefect p =
     checkDescriptors (uiUnpackedSizeForwardStrand p) 0 (xVectorOfSequenceDescriptors p)"

text \<open>
  The sizes a pack can have: twice the forward length fits an \<open>int64_t\<close>, and the
  number of descriptors a \<open>size_t\<close>.
\<close>

definition addressable :: "Pack \<Rightarrow> bool" where
  "addressable p \<longleftrightarrow>
     2 * int (uiUnpackedSizeForwardStrand p) < 2 ^ 63
     \<and> length (xVectorOfSequenceDescriptors p) < 2 ^ 64"

text \<open>
  Where a seed of the structural-variant module lies on the reference: a forward seed
  covers \<open>[start_ref, end_ref)\<close>, a reverse-strand seed covers
  \<open>[start_ref + 1 - size, start_ref]\<close>; both within the forward strand of the pack.
\<close>

definition seedOnReference :: "Pack \<Rightarrow> Seed \<Rightarrow> bool" where
  "seedOnReference p s =
     (if bOnForwStrand s then end_ref s \<le> uiUnpackedSizeForwardStrand p
      else size' s \<le> start_ref s + 1 \<and> start_ref s < uiUnpackedSizeForwardStrand p)"

text \<open>The x-axis of a rectangle is empty, or lies inside one contig of the pack.\<close>

definition withinOneContig :: "Pack \<Rightarrow> Rectangle \<Rightarrow> bool" where
  "withinOneContig p r =
     (size' (xXAxis r) = 0 \<or>
      list_ex (\<lambda>d. uiStartOffsetUnpacked d \<le> start (xXAxis r)
                 \<and> end' (xXAxis r) \<le> uiStartOffsetUnpacked d + uiLengthUnpacked d)
        (xVectorOfSequenceDescriptors p))"

section \<open>Reseeding and jump emission (svJumpsFromSeeds.cpp)\<close>

text \<open>
  The collaborators of \<open>SvJumpsFromSeeds\<close> whose sources are not at hand are parameters
  of the model: the statistical k-mer analysis (\<open>sampleSequenceAmbiguity\<close>,
  \<open>getKMerSizeForRectangle\<close>), the hash-map seeder, \<open>Seeds::confirmSeedPositions\<close>, the
  banded alignment \<open>ksw\<close> with the alignment container it fills (its constructors, its
  score and \<open>toSeeds\<close>), the three-argument seed lumper, and \<open>SvJump::validJump\<close>.
  \<open>ambiguityBelowLimit a w\<close> stands for the comparison in \<open>double\<close>
  \<open>a <= w * (1 + dMaxSequenceSimilarity)\<close>.

  Modelled from the spec: the palindrome filter (\<open>ParlindromeFilter\<close>, not at hand)
  drops the seeds it flags and keeps the others in order; the flag is the parameter
  \<open>parlindrome\<close>.
\<close>

record 'al SvEnv =
  sampleSequenceAmbiguity :: "8 word list \<Rightarrow> 8 word list \<Rightarrow> nat"
  ambiguityBelowLimit :: "nat \<Rightarrow> nat \<Rightarrow> bool"
  getKMerSizeForRectangle :: "Rectangle \<Rightarrow> nat"
  hashMapSeeding :: "nat \<Rightarrow> 8 word list \<Rightarrow> 8 word list \<Rightarrow> Seed list"
  confirmSeedPositions :: "Seed list \<Rightarrow> 8 word list \<Rightarrow> Pack \<Rightarrow> Seed list"
  newAlignment :: "nat \<Rightarrow> nat \<Rightarrow> 'al"
  emptyAlignment :: "'al"
  ksw :: "8 word list \<Rightarrow> 8 word list \<Rightarrow> nat \<Rightarrow> nat \<Rightarrow> nat \<Rightarrow> nat \<Rightarrow> 'al \<Rightarrow> 'al"
  score :: "'al \<Rightarrow> int"
  toSeeds :: "'al \<Rightarrow> Pack \<Rightarrow> Seed list"
  parlindrome :: "Seed list \<Rightarrow> Seed \<Rightarrow> bool"
  seedLumper :: "Seed list \<Rightarrow> 8 word list \<Rightarrow> Pack \<Rightarrow> Seed list"
  validJump :: "Seed \<Rightarrow> Seed \<Rightarrow> bool \<Rightarrow> bool"

definition ParlindromeFilter_execute :: "'al SvEnv \<Rightarrow> Seed list \<Rightarrow> Seed list" where
  "ParlindromeFilter_execute env pSeeds = filter (\<lambda>s. \<not> parlindrome env pSeeds s) pSeeds"

text \<open>
  \<open>NucSeq::nucleotideComplement\<close> on the codes of a sequence (below 128), the reversal
  of a sequence, and the slice \<open>fromTo\<close> of the query.
\<close>

definition nucleotideComplement :: "8 word \<Rightarrow> 8 word" where
  "nucleotideComplement iNucleotide = (if iNucleotide < 4 then [3, 2, 1, 0] ! unat iNucleotide else 5)"

definition vSwitchAllBasePairsToComplement :: "8 word list \<Rightarrow> 8 word list" where
  "vSwitchAllBasePairsToComplement s = map nucleotideComplement s"

definition vReverseAll :: "8 word list \<Rightarrow> 8 word list" where
  "vReverseAll s = rev s"

definition fromTo :: "8 word list \<Rightarrow> nat \<Rightarrow> nat \<Rightarrow> 8 word list" where
  "fromTo s uiStart uiEnd = take (uiEnd - uiStart) (drop uiStart s)"

text \<open>The position fixes applied to the seeds found inside an area.\<close>

definition fixForward :: "Rectangle \<Rightarrow> Seed \<Rightarrow> Seed" where
  "fixForward xArea rSeed =
     rSeed\<lparr> uiPosOnReference := uiPosOnReference rSeed + start (xXAxis xArea),
            iStart := iStart rSeed + start (xYAxis xArea) \<rparr>"

definition fixReverse :: "Rectangle \<Rightarrow> Seed \<Rightarrow> Seed" where
  "fixReverse xArea rSeed =
     rSeed\<lparr> bOnForwStrand := False,
            uiPosOnReference := u64 (int (end' (xXAxis xArea)) - int (uiPosOnReference rSeed) - 1),
            iStart := iStart rSeed + start (xYAxis xArea) \<rparr>"

text \<open>
  The two alignments of the fall-back to banded dynamic programming: the query rows of
  the area against the extracted reference, and against its reverse complement.
\<close>

definition dpForwardAlignment :: "'al SvEnv \<Rightarrow> Rectangle \<Rightarrow> 8 word list \<Rightarrow> 8 word list \<Rightarrow> 'al" where
  "dpForwardAlignment env xArea pQuery pRef =
     ksw env pQuery pRef (start (xYAxis xArea)) (u64 (int (end' (xYAxis xArea)) - 1))
       0 (u64 (int (length pRef) - 1))
       (newAlignment env (start (xXAxis xArea)) (start (xYAxis xArea)))"

definition dpReverseAlignment :: "'al SvEnv \<Rightarrow> Rectangle \<Rightarrow> 8 word list \<Rightarrow> 8 word list \<Rightarrow> 'al" where
  "dpReverseAlignment env xArea pQuery pRefRevComp =
     ksw env pQuery pRefRevComp (start (xYAxis xArea)) (u64 (int (end' (xYAxis xArea)) - 1))
       0 (u64 (int (length pRefRevComp) - 1)) (emptyAlignment env)"

text \<open>
  \<open>computeSeeds\<close> for one area, as called from \<open>execute\<close> (\<open>pOutExtra\<close> is null); the
  result is the new content of \<open>rvRet\<close>, or the exception of the extraction.
\<close>

definition computeSeedsArea ::
  "'al SvEnv \<Rightarrow> Rectangle \<Rightarrow> 8 word list \<Rightarrow> Pack \<Rightarrow> Seed list \<Rightarrow> error + Seed list" where
  "computeSeedsArea env xArea pQuery pRefSeq rvRet =
     (if size' (xXAxis xArea) = 0 \<or> size' (xYAxis xArea) = 0 then Inr rvRet
      else
       (case vExtract pRefSeq (i64 (int (start (xXAxis xArea)))) (i64 (int (end' (xXAxis xArea)))) of
          Inl e \<Rightarrow> Inl e
        | Inr pRef \<Rightarrow>
           (let pRefRevComp = vSwitchAllBasePairsToComplement (vReverseAll pRef);
                uiSampledAmbiguity = sampleSequenceAmbiguity env pRef pRefRevComp
            in if ambiguityBelowLimit env uiSampledAmbiguity (size' (xXAxis xArea))
               then
                 (let uiSeedSize = getKMerSizeForRectangle env xArea in
                  if uiSeedSize > size' (xXAxis xArea) \<or> uiSeedSize > size' (xYAxis xArea)
                  then Inr rvRet
                  else
                    (let pQuerySegment = fromTo pQuery (start (xYAxis xArea)) (end' (xYAxis xArea));
                         pSeeds = map (fixForward xArea)
                                    (hashMapSeeding env uiSeedSize pQuerySegment pRef);
                         pSeedsRev = map (fixReverse xArea)
                                       (hashMapSeeding env uiSeedSize pQuerySegment pRefRevComp)
                     in Inr (rvRet @ confirmSeedPositions env pSeeds pQuery pRefSeq
                                   @ confirmSeedPositions env pSeedsRev pQuery pRefSeq)))
               else
                 (let pFAlignment = dpForwardAlignment env xArea pQuery pRef;
                      pForwSeeds = toSeeds env pFAlignment pRefSeq;
                      pRAlignment = dpReverseAlignment env xArea pQuery pRefRevComp;
                      pRevSeeds = map (fixReverse xArea) (toSeeds env pRAlignment pRefSeq)
                  in if score env pFAlignment \<ge> score env pRAlignment
                     then Inr (rvRet @ pForwSeeds)
                     else Inr (rvRet @ pRevSeeds)))))"

definition computeSeeds ::
  "'al SvEnv \<Rightarrow> Rectangle \<times> Rectangle \<Rightarrow> 8 word list \<Rightarrow> Pack \<Rightarrow> error + Seed list" where
  "computeSeeds env xAreas pQuery pRefSeq =
     (case computeSeedsArea env (fst xAreas) pQuery pRefSeq [] of
        Inl e \<Rightarrow> Inl e
      | Inr s1 \<Rightarrow>
         (case computeSeedsArea env (snd xAreas) pQuery pRefSeq s1 of
            Inl e \<Rightarrow> Inl e
          | Inr pSeeds \<Rightarrow>
              if length pSeeds = 0 then Inr pSeeds
              else Inr (seedLumper env pSeeds pQuery pRefSeq)))"

text \<open>
  A jump is recorded by the constructor call that creates it: the five-argument
  constructor of a dummy jump \<open>(seed, query length, bFromSeedStart, read id, maximal
  distance)\<close> and the four-argument constructor of a jump between two seeds.
\<close>

datatype SvJump =
    DummyJump Seed nat bool int nat
  | SeedJump Seed Seed bool int

definition emitJumps ::
  "SvConfig \<Rightarrow> 'al SvEnv \<Rightarrow> SeedRef \<Rightarrow> SeedRef \<Rightarrow> 8 word list \<Rightarrow> int \<Rightarrow> SvJump list \<Rightarrow> SvJump list" where
  "emitJumps cfg env rLast rNext pQuery iId pRet =
     (if (rLast = DummyRef \<or> rNext = DummyRef) \<and> bDoDummyJumps cfg
      then
        (let r1 = (if rNext \<noteq> DummyRef \<and> start (deref cfg rNext) > uiMinDistDummy cfg
                   then pRet @ [DummyJump (deref cfg rNext) (length pQuery) False iId
                                  (uiMaxDistDummy cfg)]
                   else pRet)
         in if rLast \<noteq> DummyRef \<and> end' (deref cfg rLast) + uiMinDistDummy cfg \<le> length pQuery
            then r1 @ [DummyJump (deref cfg rLast) (length pQuery) True iId (uiMaxDistDummy cfg)]
            else r1)
      else
        (let r1 = (if validJump env (deref cfg rNext) (deref cfg rLast) True
                   then pRet @ [SeedJump (deref cfg rNext) (deref cfg rLast) True iId]
                   else pRet)
         in if validJump env (deref cfg rLast) (deref cfg rNext) False
            then r1 @ [SeedJump (deref cfg rLast) (deref cfg rNext) False iId]
            else r1))"

text \<open>
  The loop \<open>pCurr = &rLast; for (rSeed : seeds) { f(*pCurr, rSeed); pCurr = &rSeed; }
  f(*pCurr, rNext)\<close>, which both the recursion and \<open>execute_helper\<close> run.
\<close>

datatype sv_error = OutOfFuel | Raised error

fun chainCalls ::
  "(SeedRef \<Rightarrow> SeedRef \<Rightarrow> SvJump list \<Rightarrow> sv_error + SvJump list)
     \<Rightarrow> SeedRef \<Rightarrow> Seed list \<Rightarrow> SeedRef \<Rightarrow> SvJump list \<Rightarrow> sv_error + SvJump list" where
  "chainCalls f pCurr [] rNext pRet = f pCurr rNext pRet"
| "chainCalls f pCurr (rSeed # rest) rNext pRet =
     (case f pCurr (SeedRef rSeed) pRet of
        Inl e \<Rightarrow> Inl e
      | Inr pRet' \<Rightarrow> chainCalls f (SeedRef rSeed) rest rNext pRet')"

text \<open>
  \<open>makeJumpsByReseedingRecursive\<close> with the list of jumps passed through. Whether the
  recursion ends depends on what the reseeding finds, so the depth is bounded by fuel
  and running out of it is a result. \<open>std::sort\<close> by query start is taken to be stable.
\<close>

fun makeJumpsByReseedingRecursive ::
  "nat \<Rightarrow> SvConfig \<Rightarrow> 'al SvEnv \<Rightarrow> SeedRef \<Rightarrow> SeedRef \<Rightarrow> 8 word list \<Rightarrow> int \<Rightarrow> Pack
     \<Rightarrow> SvJump list \<Rightarrow> sv_error + SvJump list" where
  "makeJumpsByReseedingRecursive 0 cfg env rLast rNext pQuery iId pRefSeq pRet = Inl OutOfFuel"
| "makeJumpsByReseedingRecursive (Suc fuel) cfg env rLast rNext pQuery iId pRefSeq pRet =
     (case computeSeeds env (getPositionsForSeeds cfg pRefSeq rLast rNext 0 (length pQuery))
             pQuery pRefSeq of
        Inl e \<Rightarrow> Inl (Raised e)
      | Inr found \<Rightarrow>
         (let pvSeeds = sort_key start (ParlindromeFilter_execute env found) in
          if length pvSeeds > 0
          then chainCalls
                 (\<lambda>a b acc. makeJumpsByReseedingRecursive fuel cfg env a b pQuery iId pRefSeq acc)
                 rLast pvSeeds rNext pRet
          else Inr (emitJumps cfg env rLast rNext pQuery iId pRet)))"




section \<open>Concrete packs used to evaluate the model\<close>

text \<open>A pack holding the six bases ACGTCA, and one of 1000 bases A.\<close>

definition pack_ACGTCA :: Pack where
  "pack_ACGTCA =
     \<lparr> bPackComprisesReverseStrand = False, xVectorOfSequenceDescriptors = [],
       xVectorOfHoleDescriptors = [], xPackedNucSeqs = [0x1B, 0x40], seed = 0,
       uiUnpackedSizeForwardStrand = 6 \<rparr>"

definition pack_1000 :: Pack where
  "pack_1000 =
     \<lparr> bPackComprisesReverseStrand = False, xVectorOfSequenceDescriptors = [],
       xVectorOfHoleDescriptors = [], xPackedNucSeqs = replicate 250 0, seed = 0,
       uiUnpackedSizeForwardStrand = 1000 \<rparr>"


text \<open>
  Scenario S1: the contigs \<open>ACGTACGT\<close> and \<open>GGNNCCAA\<close> as codes (4 is \<open>N\<close>), and a
  \<open>rand()\<close> that always returns 2.
\<close>

definition contigs_S1 :: "(string \<times> string \<times> 8 word list) list" where
  "contigs_S1 =
     [(''A'', [], [0, 1, 2, 3, 0, 1, 2, 3]), (''B'', [], [2, 2, 4, 4, 1, 1, 0, 0])]"

definition rand_S1 :: "nat \<Rightarrow> nat" where
  "rand_S1 k = 2"

section \<open>Concrete data for the reseeding\<close>

text \<open>
  A pack of 2000 bases A in one contig; a configuration with dummy jumps switched on;
  and collaborators that find nothing by hashing, choose the branch by
  \<open>5 a \<le> 6 w\<close>, and whose alignments are a score with a list of seeds. The alignment
  of the bases GTC scores \<open>fs\<close>, any other \<open>rs\<close>.
\<close>

definition pack_2000 :: Pack where
  "pack_2000 =
     \<lparr> bPackComprisesReverseStrand = False,
       xVectorOfSequenceDescriptors =
         [\<lparr> sName = ''chr1'', sComment = ''none'', uiStartOffsetUnpacked = 0,
            uiLengthUnpacked = 2000, gi = 0, uiNumberOfHoles = 0 \<rparr>],
       xVectorOfHoleDescriptors = [], xPackedNucSeqs = replicate 500 0, seed = 0,
       uiUnpackedSizeForwardStrand = 2000 \<rparr>"

definition config_S4 :: "nat \<Rightarrow> SvConfig" where
  "config_S4 minDist =
     \<lparr> uiMinSeedSizeSV = 18, uiMaxAmbiguitySv = 1, iMaxSizeReseed = 100, bDoDummyJumps = True,
       uiMinDistDummy = minDist, uiMaxDistDummy = 200, xDummySeed = mkSeed 0 0 0 True \<rparr>"

definition exampleEnv :: "nat \<Rightarrow> int \<Rightarrow> int \<Rightarrow> (int \<times> Seed list) SvEnv" where
  "exampleEnv amb fs rs =
     \<lparr> sampleSequenceAmbiguity = (\<lambda>a b. amb),
       ambiguityBelowLimit = (\<lambda>a w. 5 * a \<le> 6 * w),
       getKMerSizeForRectangle = (\<lambda>r. 5),
       hashMapSeeding = (\<lambda>k q r. []),
       confirmSeedPositions = (\<lambda>s q p. s),
       newAlignment = (\<lambda>r q. (0, [])),
       emptyAlignment = (0, []),
       ksw = (\<lambda>q r fq tq fr tr al.
                if r = [2, 3, 1] then (fs, [mkSeed 2 2 2 True]) else (rs, [mkSeed 0 2 0 True])),
       score = fst,
       toSeeds = (\<lambda>al p. snd al),
       parlindrome = (\<lambda>l s. False),
       seedLumper = (\<lambda>s q p. s),
       validJump = (\<lambda>a b f. True) \<rparr>"

text \<open>
  Scenario S3: a pack with two contigs ending at 100 and 200, and a configuration with
  \<open>iMaxSizeReseed = 200\<close>.
\<close>

definition pack_two_contigs :: Pack where
  "pack_two_contigs =
     \<lparr> bPackComprisesReverseStrand = False,
       xVectorOfSequenceDescriptors =
         [\<lparr> sName = ''A'', sComment = ''none'', uiStartOffsetUnpacked = 0,
            uiLengthUnpacked = 100, gi = 0, uiNumberOfHoles = 0 \<rparr>,
          \<lparr> sName = ''B'', sComment = ''none'', uiStartOffsetUnpacked = 100,
            uiLengthUnpacked = 100, gi = 0, uiNumberOfHoles = 0 \<rparr>],
       xVectorOfHoleDescriptors = [], xPackedNucSeqs = replicate 50 0, seed = 0,
       uiUnpackedSizeForwardStrand = 200 \<rparr>"

definition config_S3 :: SvConfig where
  "config_S3 =
     \<lparr> uiMinSeedSizeSV = 18, uiMaxAmbiguitySv = 1, iMaxSizeReseed = 200, bDoDummyJumps = True,
       uiMinDistDummy = 10, uiMaxDistDummy = 200, xDummySeed = mkSeed 0 0 0 True \<rparr>"

section \<open>Extraction from the pack\<close>

lemma i64_id: "- (2 ^ 63) \<le> x \<Longrightarrow> x < 2 ^ 63 \<Longrightarrow> i64 x = x"
  by (simp add: i64_def)

lemma u64_nat: "0 \<le> x \<Longrightarrow> x < 2 ^ 64 \<Longrightarrow> u64 x = nat x"
  by (simp add: u64_def)

lemma i64_u64: "- (2 ^ 63) \<le> x \<Longrightarrow> x < 2 ^ 63 \<Longrightarrow> i64 (int (u64 x)) = x"
proof -
  assume a: "- (2 ^ 63) \<le> x" "x < 2 ^ 63"
  have "(x mod 2 ^ 64 + 2 ^ 63) mod 2 ^ 64 = (x + 2 ^ 63) mod (2 ^ 64 :: int)"
    by (simp add: mod_add_left_eq)
  also have "\<dots> = x + 2 ^ 63" using a by simp
  finally show ?thesis by (simp add: i64_def u64_def)
qed

text \<open>Both extraction loops are maps over the interval of positions they visit.\<close>

lemma extractForward_map:
  "extractForward p b e = map (\<lambda>i. getNucleotideOnPos p (u64 i)) [b..e - 1]"
proof (induction p b e rule: extractForward.induct)
  case (1 p iPosition iEnd)
  show ?case
  proof (cases "iPosition < iEnd")
    case True
    then have "[iPosition..iEnd - 1] = iPosition # [iPosition + 1..iEnd - 1]"
      by (simp add: upto_rec1)
    with True 1 show ?thesis by (simp add: extractForward.simps [of p iPosition iEnd])
  next
    case False
    then show ?thesis by (simp add: extractForward.simps [of p iPosition iEnd])
  qed
qed

lemma extractReverse_map:
  "extractReverse p hi lo = map (\<lambda>i. 3 - getNucleotideOnPos p (u64 i)) (rev [lo + 1..hi])"
proof (induction p hi lo rule: extractReverse.induct)
  case (1 p iPosition iAbsoluteEnd)
  show ?case
  proof (cases "iPosition > iAbsoluteEnd")
    case True
    then have "[iAbsoluteEnd + 1..iPosition] = [iAbsoluteEnd + 1..iPosition - 1] @ [iPosition]"
      by (simp add: upto_rec2)
    with True 1 show ?thesis by (simp add: extractReverse.simps [of p iPosition iAbsoluteEnd])
  next
    case False
    then show ?thesis by (simp add: extractReverse.simps [of p iPosition iAbsoluteEnd])
  qed
qed

lemma iAbsolutePosition_reverse:
  assumes L: "2 * int (uiUnpackedSizeForwardStrand p) < 2 ^ 63"
    and x: "int (uiUnpackedSizeForwardStrand p) \<le> x" "x \<le> 2 * int (uiUnpackedSizeForwardStrand p)"
  shows "iAbsolutePosition p (nat x) = 2 * int (uiUnpackedSizeForwardStrand p) - x - 1"
proof -
  let ?L = "uiUnpackedSizeForwardStrand p"
  have pr: "int (uiUnpackedSizeForwardPlusReverse p) = 2 * int ?L"
    using L by (simp add: uiUnpackedSizeForwardPlusReverse_def)
  have r: "bPositionIsOnReversStrand p (nat x)"
    using x by (simp add: bPositionIsOnReversStrand_def uiStartOfReverseStrand_def le_nat_iff)
  have "0 \<le> x + 1" "x + 1 < 2 ^ 64" using x L by simp_all
  then have u: "int (u64 (int (nat x) + 1)) = x + 1"
    using x by (simp add: u64_def)
  have "iAbsolutePosition p (nat x) = i64 (int (u64 (2 * int ?L - (x + 1))))"
    unfolding iAbsolutePosition_def using r by (simp only: if_True pr u)
  also have "\<dots> = 2 * int ?L - (x + 1)"
    by (rule i64_u64) (use x L in simp_all)
  finally show ?thesis by simp
qed

lemma sizeForwardPlusReverse_i64:
  assumes L: "2 * int (uiUnpackedSizeForwardStrand p) < 2 ^ 63"
  shows "i64 (int (uiUnpackedSizeForwardPlusReverse p)) = 2 * int (uiUnpackedSizeForwardStrand p)"
  using L by (simp add: uiUnpackedSizeForwardPlusReverse_def i64_id)

lemma vExtractSubsection_forward:
  assumes L: "2 * int (uiUnpackedSizeForwardStrand p) < 2 ^ 63"
    and b: "0 \<le> b" "b < e" "e \<le> int (uiUnpackedSizeForwardStrand p)"
  shows "vExtractSubsection p b e s a = Inr ((if a then s else []) @ extractForward p b e)"
proof -
  let ?L = "uiUnpackedSizeForwardStrand p"
  have ub: "u64 b = nat b" and ue: "u64 (e - 1) = nat (e - 1)"
    using b L by (simp_all add: u64_nat)
  have nb: "\<not> bPositionIsOnReversStrand p (nat b)" "\<not> bPositionIsOnReversStrand p (nat (e - 1))"
    unfolding bPositionIsOnReversStrand_def uiStartOfReverseStrand_def using b by linarith+
  have rc: "vRangeCheckAndThrowExclusive 0 b (2 * int ?L) = Inr ()"
     "vRangeCheckAndThrowInclusive 0 e (2 * int ?L) = Inr ()"
    unfolding vRangeCheckAndThrowExclusive_def vRangeCheckAndThrowInclusive_def
    using b by simp_all
  show ?thesis
    unfolding vExtractSubsection_def sizeForwardPlusReverse_i64 [OF L] rc ub ue
    using nb b by (simp add: Let_def)
qed

lemma vExtractSubsection_reverse:
  assumes L: "2 * int (uiUnpackedSizeForwardStrand p) < 2 ^ 63"
    and b: "int (uiUnpackedSizeForwardStrand p) \<le> b" "b < e"
       "e \<le> 2 * int (uiUnpackedSizeForwardStrand p)"
  shows "vExtractSubsection p b e s a =
         Inr ((if a then s else []) @
              extractReverse p (2 * int (uiUnpackedSizeForwardStrand p) - b - 1)
                               (2 * int (uiUnpackedSizeForwardStrand p) - e - 1))"
proof -
  let ?L = "uiUnpackedSizeForwardStrand p"
  have ub: "u64 b = nat b" and ue: "u64 (e - 1) = nat (e - 1)" and ue': "u64 e = nat e"
    using b L by (simp_all add: u64_nat)
  have nb: "bPositionIsOnReversStrand p (nat b)" "bPositionIsOnReversStrand p (nat (e - 1))"
    unfolding bPositionIsOnReversStrand_def uiStartOfReverseStrand_def using b by linarith+
  have rc: "vRangeCheckAndThrowExclusive 0 b (2 * int ?L) = Inr ()"
     "vRangeCheckAndThrowInclusive 0 e (2 * int ?L) = Inr ()"
    unfolding vRangeCheckAndThrowExclusive_def vRangeCheckAndThrowInclusive_def
    using b by simp_all
  have a1: "iAbsolutePosition p (nat b) = 2 * int ?L - b - 1"
    by (rule iAbsolutePosition_reverse [OF L]) (use b in linarith)+
  have a2: "iAbsolutePosition p (nat e) = 2 * int ?L - e - 1"
    by (rule iAbsolutePosition_reverse [OF L]) (use b in linarith)+
  show ?thesis
    unfolding vExtractSubsection_def sizeForwardPlusReverse_i64 [OF L] rc ub ue ue' a1 a2
    using nb b by (simp add: Let_def)
qed

text \<open>
  C1. For a pack whose doubled forward length fits an \<open>int64_t\<close> and a non-empty interval
  \<open>[b, e)\<close> on the forward strand, the extraction of \<open>[b, e)\<close> succeeds with \<open>e - b\<close>
  bases, and the extraction of the mirrored interval \<open>[2L - e, 2L - b)\<close> (the image of
  \<open>[b, e)\<close> under \<open>p' = 2L - 1 - p\<close>) yields those bases in reverse order, each base
  code \<open>x\<close> replaced by \<open>3 - x\<close>.
\<close>

theorem reverse_extraction_is_reverse_complement:
  assumes L: "2 * int (uiUnpackedSizeForwardStrand p) < 2 ^ 63"
    and b: "0 \<le> b" "b < e" "e \<le> int (uiUnpackedSizeForwardStrand p)"
  shows "\<exists>xs. vExtract p b e = Inr xs \<and> length xs = nat (e - b) \<and>
           vExtract p (2 * int (uiUnpackedSizeForwardStrand p) - e)
                      (2 * int (uiUnpackedSizeForwardStrand p) - b)
             = Inr (rev (map (\<lambda>x. 3 - x) xs))"
proof -
  let ?L = "uiUnpackedSizeForwardStrand p"
  have fw: "vExtract p b e = Inr (extractForward p b e)"
    unfolding vExtract_def using vExtractSubsection_forward [OF L b] by simp
  have "vExtract p (2 * int ?L - e) (2 * int ?L - b) =
        Inr (extractReverse p (2 * int ?L - (2 * int ?L - e) - 1) (2 * int ?L - (2 * int ?L - b) - 1))"
    unfolding vExtract_def
    by (subst vExtractSubsection_reverse [OF L]) (use b in simp_all)
  then have rv: "vExtract p (2 * int ?L - e) (2 * int ?L - b) = Inr (extractReverse p (e - 1) (b - 1))"
    by simp
  have "extractReverse p (e - 1) (b - 1) = rev (map (\<lambda>x. 3 - x) (extractForward p b e))"
    by (simp add: extractReverse_map extractForward_map rev_map comp_def)
  moreover have "length (extractForward p b e) = nat (e - b)"
    using b by (simp add: extractForward_map)
  ultimately show ?thesis using fw rv by simp
qed

lemmas extract_eval =
  vExtract_def vExtractSubsection_def vRangeCheckAndThrowExclusive_def
  vRangeCheckAndThrowInclusive_def uiUnpackedSizeForwardPlusReverse_def i64_def u64_def
  bPositionIsOnReversStrand_def uiStartOfReverseStrand_def iAbsolutePosition_def
  extractForward.simps extractReverse.simps getNucleotideOnPos_def

text \<open>
  On the pack ACGTCA the interval \<open>[3, 6)\<close> reads TCA and its mirror image
  \<open>[6, 9)\<close> reads TGA.
\<close>

theorem reverse_extraction_is_reverse_complement_witness:
  "2 * int (uiUnpackedSizeForwardStrand pack_ACGTCA) < 2 ^ 63 \<and> (0::int) \<le> 3 \<and> (3::int) < 6
   \<and> 6 \<le> int (uiUnpackedSizeForwardStrand pack_ACGTCA)
   \<and> vExtract pack_ACGTCA 3 6 = Inr [3, 1, 0]
   \<and> vExtract pack_ACGTCA 6 9 = Inr [3, 2, 0]
   \<and> (\<exists>xs. vExtract pack_ACGTCA 3 6 = Inr xs \<and> length xs = nat (6 - 3) \<and>
         vExtract pack_ACGTCA (2 * int (uiUnpackedSizeForwardStrand pack_ACGTCA) - 6)
                      (2 * int (uiUnpackedSizeForwardStrand pack_ACGTCA) - 3)
             = Inr (rev (map (\<lambda>x. 3 - x) xs)))"
proof -
  have h: "2 * int (uiUnpackedSizeForwardStrand pack_ACGTCA) < 2 ^ 63" "(0::int) \<le> 3" "(3::int) < 6"
    "6 \<le> int (uiUnpackedSizeForwardStrand pack_ACGTCA)"
    by (simp_all add: pack_ACGTCA_def)
  have v: "vExtract pack_ACGTCA 3 6 = Inr [3, 1, 0]" "vExtract pack_ACGTCA 6 9 = Inr [3, 2, 0]"
    by (simp_all add: extract_eval pack_ACGTCA_def)
  from reverse_extraction_is_reverse_complement [OF h] h v show ?thesis by blast
qed

lemma extraction_checks:
  assumes L: "2 * int (uiUnpackedSizeForwardStrand p) < 2 ^ 63"
    and b: "0 \<le> b" "b < e" "e \<le> 2 * int (uiUnpackedSizeForwardStrand p)"
  shows "vRangeCheckAndThrowExclusive 0 b (i64 (int (uiUnpackedSizeForwardPlusReverse p))) = Inr ()"
    and "vRangeCheckAndThrowInclusive 0 e (i64 (int (uiUnpackedSizeForwardPlusReverse p))) = Inr ()"
    and "bPositionIsOnReversStrand p (u64 b) \<longleftrightarrow> int (uiUnpackedSizeForwardStrand p) \<le> b"
    and "bPositionIsOnReversStrand p (u64 (e - 1)) \<longleftrightarrow> int (uiUnpackedSizeForwardStrand p) \<le> e - 1"
proof -
  let ?L = "uiUnpackedSizeForwardStrand p"
  have ub: "u64 b = nat b" and ue: "u64 (e - 1) = nat (e - 1)"
    using b L by (simp_all add: u64_nat)
  show "vRangeCheckAndThrowExclusive 0 b (i64 (int (uiUnpackedSizeForwardPlusReverse p))) = Inr ()"
    "vRangeCheckAndThrowInclusive 0 e (i64 (int (uiUnpackedSizeForwardPlusReverse p))) = Inr ()"
    unfolding vRangeCheckAndThrowExclusive_def vRangeCheckAndThrowInclusive_def
      sizeForwardPlusReverse_i64 [OF L]
    using b by simp_all
  show "bPositionIsOnReversStrand p (u64 b) \<longleftrightarrow> int ?L \<le> b"
    "bPositionIsOnReversStrand p (u64 (e - 1)) \<longleftrightarrow> int ?L \<le> e - 1"
    unfolding bPositionIsOnReversStrand_def uiStartOfReverseStrand_def ub ue
    using b by linarith+
qed

text \<open>
  C2. For a request \<open>[b, e)\<close> with \<open>0 \<le> b < e \<le> 2L\<close>, both extraction routines
  raise the bridging error exactly when \<open>b\<close> and \<open>e - 1\<close> lie on opposite sides of
  the seam \<open>L\<close>; otherwise they return a sequence.
\<close>

theorem extraction_fails_iff_bridging:
  assumes L: "2 * int (uiUnpackedSizeForwardStrand p) < 2 ^ 63"
    and b: "0 \<le> b" "b < e" "e \<le> 2 * int (uiUnpackedSizeForwardStrand p)"
  shows "(if (int (uiUnpackedSizeForwardStrand p) \<le> b) \<noteq> (int (uiUnpackedSizeForwardStrand p) \<le> e - 1)
          then vExtractSubsection p b e s a = Inl BridgingExtraction
             \<and> vExtractSubsectionN p b e s a = Inl BridgingExtraction
          else (\<exists>xs. vExtractSubsection p b e s a = Inr xs)
             \<and> (\<exists>ys. vExtractSubsectionN p b e s a = Inr ys))"
proof -
  note c = extraction_checks [OF L b]
  have ne: "b \<noteq> e" "b \<le> e" using b by simp_all
  show ?thesis
    unfolding vExtractSubsection_def vExtractSubsectionN_def c
    using ne by (simp add: Let_def)
qed

text \<open>
  Scenario S6: forward length 1000, \<open>extract(990, 1010)\<close> crosses the seam at 1000 and
  fails; \<open>extract(10, 12)\<close> does not.
\<close>

theorem extraction_fails_iff_bridging_witness:
  "2 * int (uiUnpackedSizeForwardStrand pack_1000) < 2 ^ 63 \<and> (0::int) \<le> 990 \<and> (990::int) < 1010
   \<and> 1010 \<le> 2 * int (uiUnpackedSizeForwardStrand pack_1000)
   \<and> vExtractSubsection pack_1000 990 1010 [] False = Inl BridgingExtraction
   \<and> vExtractSubsectionN pack_1000 990 1010 [] False = Inl BridgingExtraction
   \<and> (\<exists>xs. vExtractSubsection pack_1000 10 12 [] False = Inr xs)
   \<and> (\<exists>ys. vExtractSubsectionN pack_1000 10 12 [] False = Inr ys)"
proof -
  have h: "2 * int (uiUnpackedSizeForwardStrand pack_1000) < 2 ^ 63" "(0::int) \<le> 990"
    "(990::int) < 1010" "1010 \<le> 2 * int (uiUnpackedSizeForwardStrand pack_1000)"
    by (simp_all add: pack_1000_def)
  have h': "2 * int (uiUnpackedSizeForwardStrand pack_1000) < 2 ^ 63" "(0::int) \<le> 10"
    "(10::int) < 12" "12 \<le> 2 * int (uiUnpackedSizeForwardStrand pack_1000)"
    by (simp_all add: pack_1000_def)
  from extraction_fails_iff_bridging [OF h, of "[]" False]
    extraction_fails_iff_bridging [OF h', of "[]" False] h
  show ?thesis
    by (simp add: pack_1000_def)
qed

section \<open>Storing a pack and loading it again\<close>

text \<open>A number that is written in decimal is read back as the same number.\<close>

lemma digit_char_value: "d < 10 \<Longrightarrow> (of_char (digit_char d) :: nat) = 48 + d"
proof -
  assume "d < 10"
  then have "d = 0 \<or> d = 1 \<or> d = 2 \<or> d = 3 \<or> d = 4 \<or> d = 5 \<or> d = 6 \<or> d = 7
             \<or> d = 8 \<or> d = 9"
    by arith
  then show ?thesis
    by (elim disjE) (simp_all add: digit_char_def)
qed

lemma isdigit_digit_char: "d < 10 \<Longrightarrow> isdigit (digit_char d)"
  by (simp add: isdigit_def digit_char_value)

lemma showNat_digits: "list_all isdigit (showNat n)"
  by (induction n rule: showNat.induct) (subst showNat.simps, simp add: isdigit_digit_char)

lemma showNat_nonempty: "showNat n \<noteq> []"
  by (subst showNat.simps) simp

lemma decimal_snoc: "decimal (xs @ [c]) = 10 * decimal xs + (of_char c - 48)"
  by (simp add: decimal_def)

lemma decimal_showNat: "decimal (showNat n) = n"
proof (induction n rule: showNat.induct)
  case (1 n)
  show ?case
  proof (cases "n < 10")
    case True
    then show ?thesis
      by (subst showNat.simps) (simp add: decimal_def digit_char_value)
  next
    case False
    then have "decimal (showNat (n div 10)) = n div 10" using 1 by simp
    with False show ?thesis
      by (subst showNat.simps) (simp add: decimal_snoc digit_char_value)
  qed
qed

lemma isdigit_not_space: "isdigit c \<Longrightarrow> \<not> isspace c"
  by (auto simp add: isdigit_def isspace_def)

lemma isdigit_not_sign: "isdigit c \<Longrightarrow> c \<noteq> CHR ''-'' \<and> c \<noteq> CHR ''+''"
  by (auto simp add: isdigit_def)

lemma dropWhile_space: "list_all isspace ws \<Longrightarrow> \<not> isspace c \<Longrightarrow>
    dropWhile isspace (ws @ c # rest) = c # rest"
  by (induction ws) simp_all

lemma digits_split:
  assumes "list_all isdigit ds" "\<not> isdigit c"
  shows "takeWhile isdigit (ds @ c # rest) = ds" "dropWhile isdigit (ds @ c # rest) = c # rest"
  using assms by (induction ds) simp_all

lemma num_get_plain:
  assumes "b \<noteq> []" "hd b \<noteq> CHR ''-''" "hd b \<noteq> CHR ''+''"
    and "takeWhile isdigit b \<noteq> []" "dropWhile isdigit b \<noteq> []"
  shows "num_get (ifstream b)
           = (Some (False, decimal (takeWhile isdigit b)), ifstream (dropWhile isdigit b))"
  using assms by (simp add: num_get_def ifstream_def Let_def)

lemma num_get_minus:
  assumes "takeWhile isdigit b \<noteq> []" "dropWhile isdigit b \<noteq> []"
  shows "num_get (ifstream (CHR ''-'' # b))
           = (Some (True, decimal (takeWhile isdigit b)), ifstream (dropWhile isdigit b))"
  using assms by (simp add: num_get_def ifstream_def Let_def)

lemma hd_showNat: "isdigit (hd (showNat n))"
  using showNat_digits [of n] showNat_nonempty [of n] by (cases "showNat n") simp_all

lemma num_get_showNat:
  assumes "\<not> isdigit c"
  shows "num_get (ifstream (showNat n @ c # rest)) = (Some (False, n), ifstream (c # rest))"
proof -
  have h: "hd (showNat n @ c # rest) = hd (showNat n)"
    using showNat_nonempty [of n] by simp
  show ?thesis
    using num_get_plain [of "showNat n @ c # rest"]
      digits_split [OF showNat_digits assms, of n rest] isdigit_not_sign [OF hd_showNat, of n]
      showNat_nonempty [of n]
    by (simp add: h decimal_showNat)
qed

lemma num_get_minus_showNat:
  assumes "\<not> isdigit c"
  shows "num_get (ifstream (CHR ''-'' # showNat n @ c # rest))
           = (Some (True, n), ifstream (c # rest))"
  using num_get_minus [of "showNat n @ c # rest"]
    digits_split [OF showNat_digits assms, of n rest] showNat_nonempty [of n]
  by (simp add: decimal_showNat)

lemma sentry_skip:
  assumes "list_all isspace ws" "\<not> isspace c"
  shows "sentry False (ifstream (ws @ c # rest)) = (True, ifstream (c # rest))"
  using dropWhile_space [OF assms, of rest] by (simp add: sentry_def good_def ifstream_def)

lemma get_unsigned_showNat:
  assumes "list_all isspace ws" "\<not> isdigit c" "n < 2 ^ w"
  shows "get_unsigned w (ifstream (ws @ showNat n @ c # rest)) x = (n, ifstream (c # rest))"
proof -
  obtain d ds where ds: "showNat n = d # ds" using showNat_nonempty [of n] by (cases "showNat n") auto
  have "\<not> isspace d" using hd_showNat [of n] isdigit_not_space by (simp add: ds)
  then have "sentry False (ifstream (ws @ showNat n @ c # rest))
              = (True, ifstream (showNat n @ c # rest))"
    using sentry_skip [OF assms(1), of d "ds @ c # rest"] by (simp add: ds)
  then show ?thesis
    using assms(3) by (simp add: get_unsigned_def num_get_showNat [OF assms(2)])
qed

lemma get_signed_showInt:
  assumes "list_all isspace ws" "\<not> isdigit c" "- (2 ^ (w - 1)) \<le> i" "i < 2 ^ (w - 1)"
  shows "get_signed w (ifstream (ws @ showInt i @ c # rest)) x = (i, ifstream (c # rest))"
proof (cases "i < 0")
  case True
  have m: "\<not> isspace CHR ''-''" by (simp add: isspace_def)
  have "sentry False (ifstream (ws @ showInt i @ c # rest))
              = (True, ifstream (CHR ''-'' # showNat (nat (- i)) @ c # rest))"
    using sentry_skip [OF assms(1) m, of "showNat (nat (- i)) @ c # rest"] True
    by (simp add: showInt_def)
  then show ?thesis
    using True assms(3) by (simp add: get_signed_def num_get_minus_showNat [OF assms(2)])
next
  case False
  obtain d ds where ds: "showNat (nat i) = d # ds"
    using showNat_nonempty [of "nat i"] by (cases "showNat (nat i)") auto
  have "\<not> isspace d" using hd_showNat [of "nat i"] isdigit_not_space by (simp add: ds)
  then have "sentry False (ifstream (ws @ showInt i @ c # rest))
              = (True, ifstream (showNat (nat i) @ c # rest))"
    using sentry_skip [OF assms(1), of d "ds @ c # rest"] False by (simp add: ds showInt_def)
  then show ?thesis
    using False assms(4) by (simp add: get_signed_def num_get_showNat [OF assms(2)])
qed

lemma get_string_word:
  assumes "list_all isspace ws" "oneWord t" "isspace c"
  shows "get_string (ifstream (ws @ t @ c # rest)) x = (t, ifstream (c # rest))"
proof -
  obtain d ds where t: "t = d # ds" using assms(2) by (cases t) (auto simp add: oneWord_def)
  have w: "list_all (\<lambda>c. \<not> isspace c) t" using assms(2) by (simp add: oneWord_def)
  then have "\<not> isspace d" by (simp add: t)
  then have s: "sentry False (ifstream (ws @ t @ c # rest)) = (True, ifstream (t @ c # rest))"
    using sentry_skip [OF assms(1), of d "ds @ c # rest"] by (simp add: t)
  have "takeWhile (\<lambda>c. \<not> isspace c) (t @ c # rest) = t"
    "dropWhile (\<lambda>c. \<not> isspace c) (t @ c # rest) = c # rest"
    using w assms(3) by (induction t) simp_all
  then show ?thesis
    unfolding get_string_def s using assms(3) by (simp add: ifstream_def)
qed

lemma getline_line:
  assumes "oneLine l"
  shows "getline (ifstream (l @ CHR 0x0A # rest)) x = (l, ifstream rest)"
proof -
  have "takeWhile (\<lambda>c. c \<noteq> CHR 0x0A) (l @ CHR 0x0A # rest) = l"
    "dropWhile (\<lambda>c. c \<noteq> CHR 0x0A) (l @ CHR 0x0A # rest) = CHR 0x0A # rest"
    using assms unfolding oneLine_def by (induction l) simp_all
  then show ?thesis
    by (simp add: getline_def sentry_def good_def) (simp add: ifstream_def)
qed

lemma get_char_char:
  assumes "list_all isspace ws" "\<not> isspace c"
  shows "get_char (ifstream (ws @ c # rest)) x = (c, ifstream rest)"
  by (simp add: get_char_def sentry_skip [OF assms]) (simp add: ifstream_def)

text \<open>
  An entry that was written is read back, from the line feed that ends the line before
  it up to the line feed that ends it; the comment comes back behind a blank.
\<close>

lemma space_facts:
  "isspace CHR '' ''" "isspace CHR 0x0A" "\<not> isdigit CHR '' ''" "\<not> isdigit CHR 0x0A"
  by (simp_all add: isspace_def isdigit_def)

lemma readSequenceEntry_written:
  assumes g: "gi d < 2 ^ 32" and nm: "oneWord (sName d)" and cm: "oneLine (sComment d)"
    and st: "uiStartOffsetUnpacked d < 2 ^ 64" and ln: "uiLengthUnpacked d < 2 ^ 64"
    and h1: "- (2 ^ 31) \<le> uiNumberOfHoles d" and h2: "uiNumberOfHoles d < 2 ^ 31"
  shows "readSequenceEntry (ifstream (CHR 0x0A # writeSequenceEntry d @ rest))
           = (asLoaded d, ifstream (CHR 0x0A # rest))"
proof -
  define T6 where "T6 = showInt (uiNumberOfHoles d) @ CHR 0x0A # rest"
  define T5 where "T5 = showNat (uiLengthUnpacked d) @ CHR '' '' # T6"
  define T4 where "T4 = showNat (uiStartOffsetUnpacked d) @ CHR '' '' # T5"
  define T3 where "T3 = sComment d @ CHR 0x0A # T4"
  define T2 where "T2 = sName d @ CHR '' '' # T3"
  have w: "CHR 0x0A # writeSequenceEntry d @ rest = CHR 0x0A # showNat (gi d) @ CHR '' '' # T2"
    by (simp add: writeSequenceEntry_def T2_def T3_def T4_def T5_def T6_def)
  have 1: "get_unsigned 32 (ifstream (CHR 0x0A # showNat (gi d) @ CHR '' '' # T2)) 0
             = (gi d, ifstream (CHR '' '' # T2))"
    using get_unsigned_showNat [of "[CHR 0x0A]" "CHR '' ''" "gi d" 32 T2 0] g
    by (simp add: space_facts)
  have 2: "get_string (ifstream (CHR '' '' # T2)) [] = (sName d, ifstream (CHR '' '' # T3))"
    using get_string_word [of "[CHR '' '']" "sName d" "CHR '' ''" T3 "[]"] nm
    by (simp add: space_facts T2_def)
  have 3: "getline (ifstream (CHR '' '' # T3)) [] = (CHR '' '' # sComment d, ifstream T4)"
    using getline_line [of "CHR '' '' # sComment d" T4 "[]"] cm
    by (simp add: oneLine_def T3_def)
  have 4: "get_unsigned 64 (ifstream T4) 0 = (uiStartOffsetUnpacked d, ifstream (CHR '' '' # T5))"
    using get_unsigned_showNat [of "[]" "CHR '' ''" "uiStartOffsetUnpacked d" 64 T5 0] st
    by (simp add: space_facts T4_def)
  have 5: "get_unsigned 64 (ifstream (CHR '' '' # T5)) 0
             = (uiLengthUnpacked d, ifstream (CHR '' '' # T6))"
    using get_unsigned_showNat [of "[CHR '' '']" "CHR '' ''" "uiLengthUnpacked d" 64 T6 0] ln
    by (simp add: space_facts T5_def)
  have 6: "get_signed 32 (ifstream (CHR '' '' # T6)) 0
             = (uiNumberOfHoles d, ifstream (CHR 0x0A # rest))"
    using get_signed_showInt [of "[CHR '' '']" "CHR 0x0A" 32 "uiNumberOfHoles d" rest 0] h1 h2
    by (simp add: space_facts T6_def)
  show ?thesis
    unfolding w by (simp add: readSequenceEntry_def 1 2 3 4 5 6 asLoaded_def)
qed

lemma readHoleEntry_written:
  assumes o: "offset h < 2 ^ 64" and l1: "- (2 ^ 31) \<le> hole_length h"
    and l2: "hole_length h < 2 ^ 31" and c: "\<not> isspace (xHoleCharacter h)"
  shows "readHoleEntry (ifstream (CHR 0x0A # writeHoleEntry h @ rest))
           = (h, ifstream (CHR 0x0A # rest))"
proof -
  define T3 where "T3 = xHoleCharacter h # CHR 0x0A # rest"
  define T2 where "T2 = showInt (hole_length h) @ CHR '' '' # T3"
  have w: "CHR 0x0A # writeHoleEntry h @ rest = CHR 0x0A # showNat (offset h) @ CHR '' '' # T2"
    by (simp add: writeHoleEntry_def T2_def T3_def)
  have 1: "get_unsigned 64 (ifstream (CHR 0x0A # showNat (offset h) @ CHR '' '' # T2)) 0
             = (offset h, ifstream (CHR '' '' # T2))"
    using get_unsigned_showNat [of "[CHR 0x0A]" "CHR '' ''" "offset h" 64 T2 0] o
    by (simp add: space_facts)
  have 2: "get_signed 32 (ifstream (CHR '' '' # T2)) 0
             = (hole_length h, ifstream (CHR '' '' # T3))"
    using get_signed_showInt [of "[CHR '' '']" "CHR '' ''" 32 "hole_length h" T3 0] l1 l2
    by (simp add: space_facts T2_def)
  have 3: "get_char (ifstream (CHR '' '' # T3)) (CHR 0x00)
             = (xHoleCharacter h, ifstream (CHR 0x0A # rest))"
    using get_char_char [of "[CHR '' '']" "xHoleCharacter h" "CHR 0x0A # rest" "CHR 0x00"] c
    by (simp add: space_facts T3_def)
  show ?thesis
    unfolding w by (simp add: readHoleEntry_def 1 2 3)
qed

text \<open>
  The loops read all entries, stop at the end of the input with \<open>eofbit\<close> set, and the
  head lines give the sizes that the tests after the loops expect.
\<close>

lemma read_at_end:
  "readSequenceEntry (ifstream [CHR 0x0A])
     = (\<lparr> sName = [], sComment = [], uiStartOffsetUnpacked = 0, uiLengthUnpacked = 0, gi = 0,
          uiNumberOfHoles = 0 \<rparr>, \<lparr> buf = [], eofbit = True, failbit = True \<rparr>)"
  "readHoleEntry (ifstream [CHR 0x0A])
     = (\<lparr> offset = 0, hole_length = 0, xHoleCharacter = CHR 0x00 \<rparr>,
        \<lparr> buf = [], eofbit = True, failbit = True \<rparr>)"
  by (simp_all add: readSequenceEntry_def readHoleEntry_def get_unsigned_def get_signed_def
      get_string_def get_char_def getline_def sentry_def good_def ifstream_def space_facts)

lemma loadSequenceDescriptors_written:
  assumes "list_all (\<lambda>d. gi d < 2 ^ 32 \<and> uiStartOffsetUnpacked d < 2 ^ 64
                     \<and> uiLengthUnpacked d < 2 ^ 64
                     \<and> - (2 ^ 31) \<le> uiNumberOfHoles d \<and> uiNumberOfHoles d < 2 ^ 31) ds"
    and "list_all (\<lambda>d. oneWord (sName d) \<and> oneLine (sComment d)) ds"
  shows "loadSequenceDescriptors (ifstream (CHR 0x0A # concat (map writeSequenceEntry ds))) v
           = (v @ map asLoaded ds, \<lparr> buf = [], eofbit = True, failbit = True \<rparr>)"
  using assms
proof (induction ds arbitrary: v)
  case Nil
  show ?case
    by (subst loadSequenceDescriptors.simps) (simp add: read_at_end)
next
  case (Cons d ds)
  have r: "readSequenceEntry (ifstream (CHR 0x0A # writeSequenceEntry d
              @ concat (map writeSequenceEntry ds)))
           = (asLoaded d, ifstream (CHR 0x0A # concat (map writeSequenceEntry ds)))"
    using Cons.prems by (intro readSequenceEntry_written) simp_all
  have f: "\<not> failbit (ifstream b)" for b by (simp add: ifstream_def)
  show ?case
    using Cons.prems
    by (subst loadSequenceDescriptors.simps) (simp add: r f Cons.IH)
qed

lemma loadHoleDescriptors_written:
  assumes "list_all (\<lambda>h. offset h < 2 ^ 64
                     \<and> - (2 ^ 31) \<le> hole_length h \<and> hole_length h < 2 ^ 31) hs"
    and "list_all (\<lambda>h. \<not> isspace (xHoleCharacter h)) hs"
  shows "loadHoleDescriptors (ifstream (CHR 0x0A # concat (map writeHoleEntry hs))) v
           = (v @ hs, \<lparr> buf = [], eofbit = True, failbit = True \<rparr>)"
  using assms
proof (induction hs arbitrary: v)
  case Nil
  show ?case
    by (subst loadHoleDescriptors.simps) (simp add: read_at_end)
next
  case (Cons h hs)
  have r: "readHoleEntry (ifstream (CHR 0x0A # writeHoleEntry h @ concat (map writeHoleEntry hs)))
           = (h, ifstream (CHR 0x0A # concat (map writeHoleEntry hs)))"
    using Cons.prems by (intro readHoleEntry_written) simp_all
  have f: "\<not> failbit (ifstream b)" for b by (simp add: ifstream_def)
  show ?case
    using Cons.prems
    by (subst loadHoleDescriptors.simps) (simp add: r f Cons.IH)
qed

lemma head_line:
  assumes "a < 2 ^ w1" "b < 2 ^ w2" "c < 2 ^ w3"
  shows "get_unsigned w1 (ifstream (showNat a @ CHR '' '' # showNat b @ CHR '' '' # showNat c
                                     @ CHR 0x0A # rest)) x
           = (a, ifstream (CHR '' '' # showNat b @ CHR '' '' # showNat c @ CHR 0x0A # rest))"
    and "get_unsigned w2 (ifstream (CHR '' '' # showNat b @ CHR '' '' # showNat c
                                     @ CHR 0x0A # rest)) y
           = (b, ifstream (CHR '' '' # showNat c @ CHR 0x0A # rest))"
    and "get_unsigned w3 (ifstream (CHR '' '' # showNat c @ CHR 0x0A # rest)) z
           = (c, ifstream (CHR 0x0A # rest))"
  using get_unsigned_showNat [of "[]" "CHR '' ''" a w1
      "showNat b @ CHR '' '' # showNat c @ CHR 0x0A # rest" x]
    get_unsigned_showNat [of "[CHR '' '']" "CHR '' ''" b w2 "showNat c @ CHR 0x0A # rest" y]
    get_unsigned_showNat [of "[CHR '' '']" "CHR 0x0A" c w3 rest z] assms
  by (simp_all add: space_facts)

lemma vLoadSequenceDescriptorVector_written:
  assumes "fitsTypes p" "textual p" "xVectorOfSequenceDescriptors q = []"
  shows "vLoadSequenceDescriptorVector (fst (vStoreCollectionDescripton p)) q
           = Inr (q\<lparr> uiUnpackedSizeForwardStrand := uiUnpackedSizeForwardStrand p,
                     seed := seed p,
                     xVectorOfSequenceDescriptors
                       := map asLoaded (xVectorOfSequenceDescriptors p) \<rparr>)"
proof -
  have l: "loadSequenceDescriptors
             (ifstream (CHR 0x0A # concat (map writeSequenceEntry (xVectorOfSequenceDescriptors p))))
             []
           = ([] @ map asLoaded (xVectorOfSequenceDescriptors p),
              \<lparr> buf = [], eofbit = True, failbit = True \<rparr>)"
    using assms(1,2) by (intro loadSequenceDescriptors_written) (simp_all add: fitsTypes_def textual_def)
  have b: "uiUnpackedSizeForwardStrand p < 2 ^ 64" "length (xVectorOfSequenceDescriptors p) < 2 ^ 64"
    "seed p < 2 ^ 32"
    using assms(1) by (simp_all add: fitsTypes_def)
  show ?thesis
    by (simp add: vLoadSequenceDescriptorVector_def vStoreCollectionDescripton_def
        head_line [OF b] l assms(3))
qed

lemma vLoadHoleDescriptorVector_written:
  assumes "fitsTypes p" "textual p" "xVectorOfHoleDescriptors q = []"
  shows "vLoadHoleDescriptorVector (snd (vStoreCollectionDescripton p)) q
           = Inr (q\<lparr> xVectorOfHoleDescriptors := xVectorOfHoleDescriptors p \<rparr>)"
proof -
  have l: "loadHoleDescriptors
             (ifstream (CHR 0x0A # concat (map writeHoleEntry (xVectorOfHoleDescriptors p)))) []
           = ([] @ xVectorOfHoleDescriptors p, \<lparr> buf = [], eofbit = True, failbit = True \<rparr>)"
    using assms(1,2) by (intro loadHoleDescriptors_written) (simp_all add: fitsTypes_def textual_def)
  have b: "uiUnpackedSizeForwardStrand p < 2 ^ 64" "length (xVectorOfSequenceDescriptors p) < 2 ^ 64"
    "length (xVectorOfHoleDescriptors p) < 2 ^ 64"
    using assms(1) by (simp_all add: fitsTypes_def)
  show ?thesis
    by (simp add: vLoadHoleDescriptorVector_def vStoreCollectionDescripton_def
        head_line [OF b] l assms(3))
qed

lemma vLoadPackedSequence_written:
  assumes "length bytes = n div 4 + (if n mod 4 = 0 then 0 else 1)"
  shows "vLoadPackedSequence (Some (vStorePack bytes n)) n q = Inr (q\<lparr> xPackedNucSeqs := bytes \<rparr>)"
proof -
  have c: "unat (word_of_nat (n mod 4) :: 8 word) = n mod 4"
    by (simp add: unat_of_nat take_bit_eq_mod)
  show ?thesis
    using assms c
    by (simp add: vLoadPackedSequence_def vStorePack_def Let_def nth_append)
qed

lemma vLoadCollection_written:
  assumes "fitsTypes p" "textual p" "wellPacked p"
  shows "vLoadCollection (vStoreCollection p) (newPack t)
           = Inr (p\<lparr> bPackComprisesReverseStrand := False,
                     xVectorOfSequenceDescriptors
                       := map asLoaded (xVectorOfSequenceDescriptors p) \<rparr>)"
proof -
  have 1: "vLoadSequenceDescriptorVector (fst (vStoreCollectionDescripton p)) (newPack t)
           = Inr ((newPack t)\<lparr> uiUnpackedSizeForwardStrand := uiUnpackedSizeForwardStrand p,
                     seed := seed p,
                     xVectorOfSequenceDescriptors
                       := map asLoaded (xVectorOfSequenceDescriptors p) \<rparr>)"
    using assms(1,2) by (intro vLoadSequenceDescriptorVector_written) (simp_all add: newPack_def)
  have 2: "vLoadPackedSequence (Some (vStorePack (xPackedNucSeqs p) (uiUnpackedSizeForwardStrand p)))
             (uiUnpackedSizeForwardStrand p) q = Inr (q\<lparr> xPackedNucSeqs := xPackedNucSeqs p \<rparr>)"
    for q
    using assms(3) by (intro vLoadPackedSequence_written) (simp add: wellPacked_def)
  have 3: "vLoadHoleDescriptorVector (snd (vStoreCollectionDescripton p)) q
           = Inr (q\<lparr> xVectorOfHoleDescriptors := xVectorOfHoleDescriptors p \<rparr>)"
    if "xVectorOfHoleDescriptors q = []" for q
    using assms(1,2) that by (intro vLoadHoleDescriptorVector_written)
  have h0: "xVectorOfHoleDescriptors (newPack t) = []" by (simp add: newPack_def)
  have "vLoadCollection (vStoreCollection p) (newPack t)
          = Inr ((newPack t)\<lparr> uiUnpackedSizeForwardStrand := uiUnpackedSizeForwardStrand p,
                     seed := seed p,
                     xVectorOfSequenceDescriptors
                       := map asLoaded (xVectorOfSequenceDescriptors p),
                     xPackedNucSeqs := xPackedNucSeqs p,
                     xVectorOfHoleDescriptors := xVectorOfHoleDescriptors p \<rparr>)"
    by (simp add: vLoadCollection_def vStoreCollection_def 1 2 3 h0)
  also have "(newPack t)\<lparr> uiUnpackedSizeForwardStrand := uiUnpackedSizeForwardStrand p,
                     seed := seed p,
                     xVectorOfSequenceDescriptors
                       := map asLoaded (xVectorOfSequenceDescriptors p),
                     xPackedNucSeqs := xPackedNucSeqs p,
                     xVectorOfHoleDescriptors := xVectorOfHoleDescriptors p \<rparr>
          = p\<lparr> bPackComprisesReverseStrand := False,
                     xVectorOfSequenceDescriptors
                       := map asLoaded (xVectorOfSequenceDescriptors p) \<rparr>"
    by (cases p) (simp add: newPack_def)
  finally show ?thesis .
qed

lemma list_all_update_last:
  assumes "list_all P xs" "xs \<noteq> [] \<Longrightarrow> P y"
  shows "list_all P (xs[length xs - Suc 0 := y])"
  using assms by (cases "xs = []") (auto simp add: list_all_iff dest!: set_update_subset_insert [THEN subsetD])

lemma appendLoop_invariant:
  assumes "appendLoop rnd xs p d uiOff uiPrev k = (p', d', k')"
    and "wellPacked p" "list_all (\<lambda>h. \<not> isspace (xHoleCharacter h)) (xVectorOfHoleDescriptors p)"
  shows "wellPacked p'
       \<and> list_all (\<lambda>h. \<not> isspace (xHoleCharacter h)) (xVectorOfHoleDescriptors p')
       \<and> xVectorOfSequenceDescriptors p' = xVectorOfSequenceDescriptors p
       \<and> bPackComprisesReverseStrand p' = bPackComprisesReverseStrand p
       \<and> sName d' = sName d \<and> sComment d' = sComment d"
  using assms
proof (induction xs arbitrary: p d uiOff uiPrev k)
  case Nil
  then show ?case by simp
next
  case (Cons x xs)
  let ?L = "uiUnpackedSizeForwardStrand p"
  define H1 where "H1 =
            (if unat x \<ge> 4
             then (if uiPrev = unat x
                   then (xVectorOfHoleDescriptors p)[length (xVectorOfHoleDescriptors p) - 1 :=
                          (last (xVectorOfHoleDescriptors p))\<lparr> hole_length
                             := hole_length (last (xVectorOfHoleDescriptors p)) + 1 \<rparr>]
                   else xVectorOfHoleDescriptors p @ [\<lparr> offset = uiOff, hole_length = 1,
                                    xHoleCharacter = CHR ''N'' \<rparr>])
             else xVectorOfHoleDescriptors p)"
  define D1 where "D1 = (if unat x \<ge> 4 \<and> uiPrev \<noteq> unat x
                then d\<lparr> uiNumberOfHoles := uiNumberOfHoles d + 1 \<rparr> else d)"
  define C1 where "C1 = (if unat x \<ge> 4 then rnd k mod 4 else unat x)"
  define K1 where "K1 = (if unat x \<ge> 4 then k + 1 else k)"
  define B1 where "B1 =
            (if 2 * (3 - ?L mod 4) = 6
             then xPackedNucSeqs p @ [word_of_nat (C1 * 2 ^ (2 * (3 - ?L mod 4)))]
             else (xPackedNucSeqs p)[length (xPackedNucSeqs p) - 1 :=
                    last (xPackedNucSeqs p) OR word_of_nat (C1 * 2 ^ (2 * (3 - ?L mod 4)))])"
  define P1 where "P1 = p\<lparr> xVectorOfHoleDescriptors := H1, xPackedNucSeqs := B1,
                uiUnpackedSizeForwardStrand := ?L + 1 \<rparr>"
  have step: "appendLoop rnd (x # xs) p d uiOff uiPrev k
                = appendLoop rnd xs P1 D1 (uiOff + 1) (unat x) K1"
    by (simp add: Let_def P1_def H1_def D1_def C1_def K1_def B1_def)
  have lb: "length B1 = (if ?L mod 4 = 0 then length (xPackedNucSeqs p) + 1
                         else length (xPackedNucSeqs p))"
  proof -
    have "(2 * (3 - ?L mod 4) = 6) = (?L mod 4 = 0)" by presburger
    then show ?thesis by (simp add: B1_def)
  qed
  have wp: "wellPacked P1"
  proof -
    have "(?L + 1) div 4 + (if (?L + 1) mod 4 = 0 then 0 else 1)
           = (if ?L mod 4 = 0 then ?L div 4 + (if ?L mod 4 = 0 then 0 else 1) + 1
              else ?L div 4 + (if ?L mod 4 = 0 then 0 else 1))"
      by presburger
    then show ?thesis
      using Cons.prems(2) lb by (simp add: wellPacked_def P1_def)
  qed
  have n: "\<not> isspace CHR ''N''" by (simp add: isspace_def)
  have "list_all (\<lambda>h. \<not> isspace (xHoleCharacter h)) H1"
  proof -
    have "xVectorOfHoleDescriptors p \<noteq> [] \<Longrightarrow>
            \<not> isspace (xHoleCharacter (last (xVectorOfHoleDescriptors p)))"
      using Cons.prems(3) by (simp add: list_all_iff)
    then show ?thesis
      using Cons.prems(3) n
      by (auto simp add: H1_def intro!: list_all_update_last)
  qed
  then have hs: "list_all (\<lambda>h. \<not> isspace (xHoleCharacter h)) (xVectorOfHoleDescriptors P1)"
    by (simp add: P1_def)
  have r: "appendLoop rnd xs P1 D1 (uiOff + 1) (unat x) K1 = (p', d', k')"
    using Cons.prems(1) step by simp
  from Cons.IH [OF r wp hs] show ?case
    by (simp add: P1_def D1_def)
qed

text \<open>
  Appending keeps four bases to the byte, holes with the character \<open>N\<close>, and the names
  and comments it was given.
\<close>

lemma vAppendSequence_invariant:
  assumes a: "vAppendSequence rnd k rsName rsComment rxSequence p = (p', k')"
    and wp: "wellPacked p" and tx: "textual p"
    and nm: "rxSequence \<noteq> [] \<longrightarrow> oneWord rsName \<and> oneLine rsComment"
  shows "wellPacked p' \<and> textual p'
       \<and> bPackComprisesReverseStrand p' = bPackComprisesReverseStrand p"
proof (cases "rxSequence = []")
  case True
  with a wp tx show ?thesis by (simp add: vAppendSequence_def)
next
  case False
  define uiOff where "uiOff =
               (if xVectorOfSequenceDescriptors p = [] then 0
                else uiStartOffsetUnpacked (last (xVectorOfSequenceDescriptors p))
                     + uiLengthUnpacked (last (xVectorOfSequenceDescriptors p)))"
  define d where "d = \<lparr> sName = rsName,
                   sComment = (if rsComment = [] then ''none'' else rsComment),
                   uiStartOffsetUnpacked = uiOff,
                   uiLengthUnpacked = length rxSequence, gi = 0, uiNumberOfHoles = 0 \<rparr>"
  obtain P D K where l: "appendLoop rnd rxSequence p d uiOff 0 k = (P, D, K)"
    by (cases "appendLoop rnd rxSequence p d uiOff 0 k") auto
  have p': "p' = P\<lparr> xVectorOfSequenceDescriptors := xVectorOfSequenceDescriptors P @ [D] \<rparr>"
    using a False l by (simp add: vAppendSequence_def Let_def uiOff_def d_def)
  have hs: "list_all (\<lambda>h. \<not> isspace (xHoleCharacter h)) (xVectorOfHoleDescriptors p)"
    using tx by (simp add: textual_def)
  note i = appendLoop_invariant [OF l wp hs]
  have none: "oneLine ''none''" by (simp add: oneLine_def)
  have D: "oneWord (sName D)" "oneLine (sComment D)"
    using i nm False none by (simp_all add: d_def)
  have "wellPacked p'" using i by (simp add: p' wellPacked_def)
  moreover have "textual p'" using i tx D by (simp add: p' textual_def)
  ultimately show ?thesis using i by (simp add: p')
qed

lemma appendSequences_invariant:
  assumes "wellPacked p" "textual p"
    and "list_all (\<lambda>(rsName, rsComment, rxSequence).
                    rxSequence \<noteq> [] \<longrightarrow> oneWord rsName \<and> oneLine rsComment) xs"
  shows "wellPacked (appendSequences rnd k xs p) \<and> textual (appendSequences rnd k xs p)
       \<and> bPackComprisesReverseStrand (appendSequences rnd k xs p)
           = bPackComprisesReverseStrand p"
  using assms
proof (induction xs arbitrary: k p)
  case Nil
  then show ?case by simp
next
  case (Cons x xs)
  obtain n c s where x: "x = (n, c, s)" by (cases x) auto
  obtain p' k' where a: "vAppendSequence rnd k n c s p = (p', k')"
    by (cases "vAppendSequence rnd k n c s p") auto
  have nm: "s \<noteq> [] \<longrightarrow> oneWord n \<and> oneLine c" using Cons.prems(3) by (simp add: x)
  note i = vAppendSequence_invariant [OF a Cons.prems(1,2) nm]
  have "list_all (\<lambda>(rsName, rsComment, rxSequence).
                    rxSequence \<noteq> [] \<longrightarrow> oneWord rsName \<and> oneLine rsComment) xs"
    using Cons.prems(3) by simp
  from Cons.IH [OF _ _ this, of p' k'] i show ?case
    by (simp add: x a)
qed

lemma newPack_invariant:
  "wellPacked (newPack t)" "textual (newPack t)" "\<not> bPackComprisesReverseStrand (newPack t)"
  by (simp_all add: newPack_def wellPacked_def textual_def)

text \<open>
  C3 (as amended). For a pack built by appending sequences, where the name of every
  sequence that is not empty is one word (not empty, no white space) and its comment
  has no line feed, and the counters of the pack fit their types: storing the pack and
  loading the three files into a fresh pack succeeds, and the result is the original
  pack, with its descriptors (name, start offset, length, \<open>gi\<close>, number of holes), its
  holes, its seed, its forward length and its packed bytes, except that every comment
  comes back with a blank in front.
\<close>

theorem store_load_roundtrip:
  assumes built: "p = appendSequences rnd k xs (newPack t)"
    and names: "list_all (\<lambda>(rsName, rsComment, rxSequence).
                    rxSequence \<noteq> [] \<longrightarrow> oneWord rsName \<and> oneLine rsComment) xs"
    and fits: "fitsTypes p"
  shows "vLoadCollection (vStoreCollection p) (newPack t')
           = Inr (p\<lparr> xVectorOfSequenceDescriptors
                       := map asLoaded (xVectorOfSequenceDescriptors p) \<rparr>)"
proof -
  note i = appendSequences_invariant [OF newPack_invariant(1,2) names, of rnd k t,
      folded built]
  have "p\<lparr> bPackComprisesReverseStrand := False,
           xVectorOfSequenceDescriptors := map asLoaded (xVectorOfSequenceDescriptors p) \<rparr>
        = p\<lparr> xVectorOfSequenceDescriptors := map asLoaded (xVectorOfSequenceDescriptors p) \<rparr>"
    using i newPack_invariant(3) [of t] by (cases p) simp
  then show ?thesis
    using vLoadCollection_written [of p t'] fits i by simp
qed

text \<open>
  Scenario S1: the contigs \<open>ACGTACGT\<close> and \<open>GGNNCCAA\<close>, with \<open>rand()\<close> returning 2 for
  the two bases of the hole.
\<close>

lemma S1_pack:
  "appendSequences rand_S1 0 contigs_S1 (newPack 7)
   = \<lparr> bPackComprisesReverseStrand = False,
       xVectorOfSequenceDescriptors =
         [\<lparr> sName = ''A'', sComment = ''none'', uiStartOffsetUnpacked = 0,
            uiLengthUnpacked = 8, gi = 0, uiNumberOfHoles = 0 \<rparr>,
          \<lparr> sName = ''B'', sComment = ''none'', uiStartOffsetUnpacked = 8,
            uiLengthUnpacked = 8, gi = 0, uiNumberOfHoles = 1 \<rparr>],
       xVectorOfHoleDescriptors = [\<lparr> offset = 10, hole_length = 2, xHoleCharacter = CHR ''N'' \<rparr>],
       xPackedNucSeqs = [0x1B, 0x1B, 0xAA, 0x50], seed = 7, uiUnpackedSizeForwardStrand = 16 \<rparr>"
  by (simp add: newPack_def vAppendSequence_def Let_def rand_S1_def contigs_S1_def)

theorem store_load_roundtrip_witness:
  "vLoadCollection (vStoreCollection (appendSequences rand_S1 0 contigs_S1 (newPack 7))) (newPack 9)
   = Inr \<lparr> bPackComprisesReverseStrand = False,
       xVectorOfSequenceDescriptors =
         [\<lparr> sName = ''A'', sComment = '' none'', uiStartOffsetUnpacked = 0,
            uiLengthUnpacked = 8, gi = 0, uiNumberOfHoles = 0 \<rparr>,
          \<lparr> sName = ''B'', sComment = '' none'', uiStartOffsetUnpacked = 8,
            uiLengthUnpacked = 8, gi = 0, uiNumberOfHoles = 1 \<rparr>],
       xVectorOfHoleDescriptors = [\<lparr> offset = 10, hole_length = 2, xHoleCharacter = CHR ''N'' \<rparr>],
       xPackedNucSeqs = [0x1B, 0x1B, 0xAA, 0x50], seed = 7, uiUnpackedSizeForwardStrand = 16 \<rparr>"
proof -
  have names: "list_all (\<lambda>(rsName, rsComment, rxSequence).
                    rxSequence \<noteq> [] \<longrightarrow> oneWord rsName \<and> oneLine rsComment) contigs_S1"
    by (simp add: contigs_S1_def oneWord_def oneLine_def isspace_def)
  have fits: "fitsTypes (appendSequences rand_S1 0 contigs_S1 (newPack 7))"
    unfolding S1_pack by (simp add: fitsTypes_def)
  from store_load_roundtrip [OF refl names fits, of 9]
  show ?thesis
    unfolding S1_pack by (simp add: asLoaded_def)
qed

text \<open>
  C3 as stated holds for every pack built by appending sequences. A sequence appended
  under the name \<open>chr 1\<close> is stored with that name, and comes back with the name
  \<open>chr\<close> and the comment \<open>1 none\<close> behind a blank.
\<close>

lemma blank_name_pack:
  "appendSequences rand_S1 0 [(''chr 1'', [], [0, 1, 2, 3])] (newPack 7)
   = \<lparr> bPackComprisesReverseStrand = False,
       xVectorOfSequenceDescriptors =
         [\<lparr> sName = ''chr 1'', sComment = ''none'', uiStartOffsetUnpacked = 0,
            uiLengthUnpacked = 4, gi = 0, uiNumberOfHoles = 0 \<rparr>],
       xVectorOfHoleDescriptors = [],
       xPackedNucSeqs = [0x1B], seed = 7, uiUnpackedSizeForwardStrand = 4 \<rparr>"
  by (simp add: newPack_def vAppendSequence_def Let_def rand_S1_def)

lemma blank_name_files:
  "vStoreCollection \<lparr> bPackComprisesReverseStrand = False,
       xVectorOfSequenceDescriptors =
         [\<lparr> sName = ''chr 1'', sComment = ''none'', uiStartOffsetUnpacked = 0,
            uiLengthUnpacked = 4, gi = 0, uiNumberOfHoles = 0 \<rparr>],
       xVectorOfHoleDescriptors = [],
       xPackedNucSeqs = [0x1B], seed = 7, uiUnpackedSizeForwardStrand = 4 \<rparr>
   = \<lparr> pacFile = Some [0x1B, 0, 0],
       annFile = Some (''4 1 7'' @ [CHR 0x0A] @ ''0 chr 1 none'' @ [CHR 0x0A] @ ''0 4 0'' @ [CHR 0x0A]),
       ambFile = Some (''4 1 0'' @ [CHR 0x0A]) \<rparr>"
  by (simp add: vStoreCollection_def vStorePack_def vStoreCollectionDescripton_def
      writeSequenceEntry_def showInt_def showNat.simps digit_char_def)


lemma blank_name_loaded:
  "vLoadCollection \<lparr> pacFile = Some [0x1B, 0, 0],
       annFile = Some (''4 1 7'' @ [CHR 0x0A] @ ''0 chr 1 none'' @ [CHR 0x0A] @ ''0 4 0'' @ [CHR 0x0A]),
       ambFile = Some (''4 1 0'' @ [CHR 0x0A]) \<rparr> (newPack 9)
   = Inr \<lparr> bPackComprisesReverseStrand = False,
       xVectorOfSequenceDescriptors =
         [\<lparr> sName = ''chr'', sComment = '' 1 none'', uiStartOffsetUnpacked = 0,
            uiLengthUnpacked = 4, gi = 0, uiNumberOfHoles = 0 \<rparr>],
       xVectorOfHoleDescriptors = [],
       xPackedNucSeqs = [0x1B], seed = 7, uiUnpackedSizeForwardStrand = 4 \<rparr>"
  by (simp add: vLoadCollection_def vLoadSequenceDescriptorVector_def vLoadHoleDescriptorVector_def
      vLoadPackedSequence_def readSequenceEntry_def readHoleEntry_def
      loadSequenceDescriptors.simps loadHoleDescriptors.simps
      get_unsigned_def get_signed_def get_string_def get_char_def getline_def num_get_def sentry_def
      good_def ifstream_def isspace_def isdigit_def decimal_def Let_def newPack_def)

theorem store_load_name_counterexample:
  "map sName (xVectorOfSequenceDescriptors
      (appendSequences rand_S1 0 [(''chr 1'', [], [0, 1, 2, 3])] (newPack 7))) = [''chr 1'']
   \<and> vLoadCollection
        (vStoreCollection (appendSequences rand_S1 0 [(''chr 1'', [], [0, 1, 2, 3])] (newPack 7)))
        (newPack 9)
      = Inr \<lparr> bPackComprisesReverseStrand = False,
          xVectorOfSequenceDescriptors =
            [\<lparr> sName = ''chr'', sComment = '' 1 none'', uiStartOffsetUnpacked = 0,
               uiLengthUnpacked = 4, gi = 0, uiNumberOfHoles = 0 \<rparr>],
          xVectorOfHoleDescriptors = [],
          xPackedNucSeqs = [0x1B], seed = 7, uiUnpackedSizeForwardStrand = 4 \<rparr>"
  unfolding blank_name_pack blank_name_files blank_name_loaded by simp

section \<open>Shadows\<close>

text \<open>
  C8 (as amended). \<open>getLeftShadow\<close> builds the interval that starts at the seed's query
  start and has size \<open>end_ref - start + uiQueryLength\<close>, so it ends at
  \<open>end_ref + uiQueryLength\<close>; \<open>getRightShadow\<close> builds the interval that starts at the
  seed's reference start and has size \<open>end - start_ref + iRefSize\<close>, so it ends at
  \<open>end + iRefSize\<close>. The added term of the left shadow is the query length; the
  bucket start (the strip's left border) is passed but not used.
\<close>

theorem shadow_intervals:
  assumes "start s < 2 ^ 62" "end' s < 2 ^ 62" "start_ref s < 2 ^ 62" "end_ref s < 2 ^ 62"
    and "uiQueryLength < 2 ^ 62" "iRefSize < 2 ^ 62"
  shows "start (getLeftShadow uiBucketStart s uiQueryLength) = int (start s)
       \<and> size' (getLeftShadow uiBucketStart s uiQueryLength)
           = int (end_ref s) - int (start s) + int uiQueryLength
       \<and> end' (getLeftShadow uiBucketStart s uiQueryLength) = int (end_ref s) + int uiQueryLength
       \<and> start (getRightShadow uiBucketStart s iRefSize) = int (start_ref s)
       \<and> size' (getRightShadow uiBucketStart s iRefSize)
           = int (end' s) - int (start_ref s) + int iRefSize
       \<and> end' (getRightShadow uiBucketStart s iRefSize) = int (end' s) + int iRefSize"
proof -
  have l: "i64 (int (u64 (int (end_ref s) - int (start s) + int uiQueryLength)))
           = int (end_ref s) - int (start s) + int uiQueryLength"
    by (rule i64_u64) (use assms in simp_all)
  have r: "i64 (int (u64 (int (end' s) - int (start_ref s) + int iRefSize)))
           = int (end' s) - int (start_ref s) + int iRefSize"
    by (rule i64_u64) (use assms in simp_all)
  have a: "i64 (int (start s)) = int (start s)" "i64 (int (start_ref s)) = int (start_ref s)"
    by (rule i64_id; use assms in simp)+
  show ?thesis
    by (simp add: getLeftShadow_def getRightShadow_def mkShadowInterval_def l r a
        start_def [of "_ :: ShadowInterval"] size'_def [of "_ :: ShadowInterval"]
        end'_def [of "_ :: ShadowInterval"])
qed

theorem shadow_intervals_witness:
  "start (getLeftShadow 2 (mkSeed0 5 3 10) 100) = 5
   \<and> size' (getLeftShadow 2 (mkSeed0 5 3 10) 100) = 108
   \<and> end' (getLeftShadow 2 (mkSeed0 5 3 10) 100) = 113
   \<and> start (getRightShadow 2 (mkSeed0 5 3 10) 1000) = 10
   \<and> size' (getRightShadow 2 (mkSeed0 5 3 10) 1000) = 998
   \<and> end' (getRightShadow 2 (mkSeed0 5 3 10) 1000) = 1008"
  using shadow_intervals [of "mkSeed0 5 3 10" 100 1000 2]
  by (simp add: mkSeed0_def start_def end'_def start_ref_def end_ref_def size'_def)

text \<open>
  C8 as stated gives the left shadow the end \<open>r_end - q_start + Q_L\<close> with \<open>Q_L\<close> the
  strip's left border. For the seed (q = 5, size 3, r = 10) in a strip starting at 2 on
  a query of length 100 the shadow ends at 113; the stated end is 10, and it is 108
  if \<open>Q_L\<close> is read as the query length.
\<close>

theorem left_shadow_end_counterexample:
  "end' (getLeftShadow 2 (mkSeed0 5 3 10) 100)
     \<noteq> int (end_ref (mkSeed0 5 3 10)) - int (start (mkSeed0 5 3 10)) + 2
   \<and> end' (getLeftShadow 2 (mkSeed0 5 3 10) 100)
     \<noteq> int (end_ref (mkSeed0 5 3 10)) - int (start (mkSeed0 5 3 10)) + 100
   \<and> size' (getLeftShadow 2 (mkSeed0 5 3 10) 100)
     \<noteq> int (end_ref (mkSeed0 5 3 10)) - int (start (mkSeed0 5 3 10)) + 2"
  by (simp add: getLeftShadow_def mkShadowInterval_def mkSeed0_def start_def end'_def
      start_ref_def end_ref_def size'_def i64_def u64_def)

section \<open>Seed lumping\<close>

lemma lumpLoop_prefix:
  "lumpLoop d (ps @ [b]) xs = ps @ lumpLoop d [b] xs"
proof (induction xs arbitrary: d ps b)
  case Nil
  show ?case by simp
next
  case (Cons x xs)
  have push: "lumpLoop (seedDelta x) ((ps @ [b]) @ [x]) xs = ps @ lumpLoop (seedDelta x) ([b] @ [x]) xs"
    using Cons.IH [of "seedDelta x" "ps @ [b]" x] Cons.IH [of "seedDelta x" "[b]" x] by simp
  show ?case
    using push by (simp add: Let_def Cons.IH)
qed

lemma lumpLoop_single:
  "lumpLoop d [b] (x # xs) =
     (if d = seedDelta x \<and> start x \<le> end' b
      then lumpLoop d [grow b x] xs
      else b # lumpLoop (seedDelta x) [x] xs)"
  using lumpLoop_prefix [of "seedDelta x" "[b]" x xs]
  by (simp add: Let_def grow_def)

lemma grow_fields:
  "iStart (grow b x) = iStart b" "uiPosOnReference (grow b x) = uiPosOnReference b"
  "iSize b \<le> iSize (grow b x)" "seedDelta (grow b x) = seedDelta b"
  "grow b x = b\<lparr> iSize := iSize (grow b x) \<rparr>"
  by (auto simp add: grow_def seedDelta_def start_def start_ref_def)

lemma lumpLoop_hd:
  "\<exists>ys. lumpLoop d [b] xs = b\<lparr> iSize := iSize (hd (lumpLoop d [b] xs)) \<rparr> # ys
        \<and> iSize b \<le> iSize (hd (lumpLoop d [b] xs))"
proof (induction xs arbitrary: d b)
  case Nil
  show ?case by simp
next
  case (Cons x xs)
  show ?case
  proof (cases "d = seedDelta x \<and> start x \<le> end' b")
    case True
    from Cons.IH [of d "grow b x"] obtain ys where
      ys: "lumpLoop d [grow b x] xs = (grow b x)\<lparr> iSize := iSize (hd (lumpLoop d [grow b x] xs)) \<rparr> # ys"
      and le: "iSize (grow b x) \<le> iSize (hd (lumpLoop d [grow b x] xs))" by blast
    have g: "(grow b x)\<lparr> iSize := n \<rparr> = b\<lparr> iSize := n \<rparr>" for n
      by (simp add: grow_def)
    have eq: "lumpLoop d [b] (x # xs) = lumpLoop d [grow b x] xs"
      using True by (simp add: lumpLoop_single del: lumpLoop.simps)
    have "iSize b \<le> iSize (hd (lumpLoop d [grow b x] xs))"
      using le grow_fields(3) [of b x] by (rule order_trans [rotated])
    with ys show ?thesis
      unfolding eq g by blast
  next
    case False
    then have "lumpLoop d [b] (x # xs) = b # lumpLoop (seedDelta x) [x] xs"
      by (auto simp add: lumpLoop_single simp del: lumpLoop.simps)
    then show ?thesis by simp
  qed
qed

lemma lumpLoop_separated:
  "successively separated (lumpLoop (seedDelta b) [b] xs)"
proof (induction xs arbitrary: b)
  case Nil
  show ?case by simp
next
  case (Cons x xs)
  show ?case
  proof (cases "seedDelta b = seedDelta x \<and> start x \<le> end' b")
    case True
    then have "lumpLoop (seedDelta b) [b] (x # xs) = lumpLoop (seedDelta (grow b x)) [grow b x] xs"
      by (simp add: lumpLoop_single grow_fields(4) del: lumpLoop.simps)
    with Cons.IH [of "grow b x"] show ?thesis by simp
  next
    case False
    obtain ys where ys: "lumpLoop (seedDelta x) [x] xs
        = x\<lparr> iSize := iSize (hd (lumpLoop (seedDelta x) [x] xs)) \<rparr> # ys"
      using lumpLoop_hd [of "seedDelta x" x xs] by blast
    have sep: "separated b (x\<lparr> iSize := n \<rparr>)" for n
      using False by (auto simp add: separated_def seedDelta_def start_def start_ref_def)
    have eq: "lumpLoop (seedDelta b) [b] (x # xs) = b # lumpLoop (seedDelta x) [x] xs"
      using False by (auto simp add: lumpLoop_single simp del: lumpLoop.simps)
    have "successively separated (b # lumpLoop (seedDelta x) [x] xs)"
      using Cons.IH [of x] sep by (subst ys, subst (asm) ys) simp
    then show ?thesis unfolding eq .
  qed
qed

lemma separated_key: "separated a b \<Longrightarrow> seedKey a \<noteq> seedKey b"
  by (auto simp add: separated_def seedKey_def seedDelta_def start_def start_ref_def end'_def)

lemma lumpLoop_distinct_adj:
  "distinct_adj (map seedKey (lumpLoop (seedDelta b) [b] xs))"
  unfolding distinct_adj_def successively_map
  by (rule successively_mono [OF lumpLoop_separated]) (simp add: separated_key)

lemma lumpLoop_twice:
  "lumpLoop d pRet (a # a # ys) = lumpLoop d pRet (a # ys)"
  by (simp add: Let_def end'_def start_def)

lemma lumpLoop_twice_anywhere:
  "lumpLoop d pRet (xs @ a # a # ys) = lumpLoop d pRet (xs @ a # ys)"
proof (induction xs arbitrary: d pRet)
  case Nil
  show ?case using lumpLoop_twice by simp
next
  case (Cons x xs)
  show ?case
    by (simp add: Let_def Cons.IH del: lumpLoop.simps(2)
        add: lumpLoop.simps(2) [of d pRet x "xs @ a # a # ys"] lumpLoop.simps(2) [of d pRet x "xs @ a # ys"])
qed

text \<open>
  C10 (as amended). On the empty input the first read is outside the container. On a
  non-empty input the result is non-empty; its first seed is the first input seed
  except for its size, which may have grown by lumping; no two adjacent seeds of the
  result agree in query start, reference start and size; and a seed that occurs twice
  in a row in the input counts once.
\<close>

theorem lumping_result:
  "SeedLumping_execute [] = Inl OutOfBoundsAccess
   \<and> (\<exists>y ys. SeedLumping_execute (x # xs) = Inr (y # ys)
          \<and> y = x\<lparr> iSize := iSize y \<rparr> \<and> iSize x \<le> iSize y
          \<and> distinct_adj (map seedKey (y # ys)))
   \<and> SeedLumping_execute (us @ a # a # zs) = SeedLumping_execute (us @ a # zs)"
proof -
  obtain ys where ys: "lumpLoop (seedDelta x) [x] xs
      = x\<lparr> iSize := iSize (hd (lumpLoop (seedDelta x) [x] xs)) \<rparr> # ys"
    and le: "iSize x \<le> iSize (hd (lumpLoop (seedDelta x) [x] xs))"
    using lumpLoop_hd [of "seedDelta x" x xs] by blast
  let ?y = "x\<lparr> iSize := iSize (hd (lumpLoop (seedDelta x) [x] xs)) \<rparr>"
  have "SeedLumping_execute (x # xs) = Inr (?y # ys)"
    using ys by (simp add: SeedLumping_execute_def)
  moreover have "?y = x\<lparr> iSize := iSize ?y \<rparr>" by simp
  moreover have "iSize x \<le> iSize ?y" using le by simp
  moreover have "distinct_adj (map seedKey (?y # ys))"
    using lumpLoop_distinct_adj [of x xs] ys by simp
  ultimately have nonempty: "\<exists>y ys. SeedLumping_execute (x # xs) = Inr (y # ys)
          \<and> y = x\<lparr> iSize := iSize y \<rparr> \<and> iSize x \<le> iSize y
          \<and> distinct_adj (map seedKey (y # ys))"
    by blast
  have twice: "SeedLumping_execute (us @ a # a # zs) = SeedLumping_execute (us @ a # zs)"
  proof (cases us)
    case Nil
    have "lumpLoop (seedDelta a) [a] (a # zs) = lumpLoop (seedDelta a) [a] zs"
      by (simp add: Let_def end'_def start_def)
    with Nil show ?thesis by (simp add: SeedLumping_execute_def del: lumpLoop.simps)
  next
    case (Cons u us')
    then show ?thesis
      by (simp add: SeedLumping_execute_def lumpLoop_twice_anywhere del: lumpLoop.simps)
  qed
  show ?thesis
    using nonempty twice by (simp add: SeedLumping_execute_def)
qed

text \<open>
  Three seeds on one diagonal, the second given twice and overlapping the first, the
  last after a gap: the first two lump into a seed of size 8.
\<close>

theorem lumping_result_witness:
  "SeedLumping_execute [mkSeed 0 5 0 True, mkSeed 3 5 3 True, mkSeed 3 5 3 True, mkSeed 20 4 20 True]
     = Inr [mkSeed 0 8 0 True, mkSeed 20 4 20 True]
   \<and> SeedLumping_execute [mkSeed 0 5 0 True, mkSeed 3 5 3 True, mkSeed 20 4 20 True]
     = Inr [mkSeed 0 8 0 True, mkSeed 20 4 20 True]"
  using lumping_result [of "mkSeed 0 5 0 True" "[]" "[mkSeed 0 5 0 True]" "mkSeed 3 5 3 True"
      "[mkSeed 20 4 20 True]"]
  by (simp add: SeedLumping_execute_def mkSeed_def seedDelta_def start_def start_ref_def
      end'_def i64_def Let_def)

text \<open>
  C10 as stated has the first seed of the result equal to the first input seed. Two
  overlapping seeds on one diagonal lump into one seed of size 8, which is not the
  first input seed of size 5.
\<close>

theorem lumping_first_seed_counterexample:
  "SeedLumping_execute [mkSeed 0 5 0 True, mkSeed 3 5 3 True] = Inr [mkSeed 0 8 0 True]
   \<and> \<not> seed_eq (mkSeed 0 8 0 True) (mkSeed 0 5 0 True)
   \<and> mkSeed 0 8 0 True \<noteq> mkSeed 0 5 0 True"
  by (simp add: SeedLumping_execute_def mkSeed_def seedDelta_def start_def start_ref_def
      end'_def i64_def Let_def seed_eq_def)

section \<open>Overlapping seeds in the gap-fill alignment\<close>

lemma u64_diff_nat:
  "a < 2 ^ 64 \<Longrightarrow> b \<le> a \<Longrightarrow> u64 (int a - int b) = a - b"
  by (simp add: u64_def nat_diff_distrib' flip: of_nat_diff)

text \<open>
  C7. With \<open>ovQ\<close> the overlap of the seed with the chain end on the query
  (\<open>endOfLastSeedQuery - start\<close>, 0 if negative) and \<open>ovR\<close> its overlap on the reference
  (\<open>endOfLastSeedReference + beginRef - start_ref\<close>, 0 if negative), one pass of the loop
  appends, after the gap fill, \<open>size - max ovQ ovR\<close> matches, \<open>ovQ - ovR\<close> deletions
  and \<open>ovR - ovQ\<close> insertions, each count cut off at 0. The wrap-around of the two
  unsigned subtractions in the source does not show in the result.
\<close>

theorem overlap_runs:
  assumes bq: "endOfLastSeedQuery st < 2 ^ 64"
    and br: "endOfLastSeedReference st + beginRef < 2 ^ 64"
  shows "data (pAlignment (seedStep pQuery pRef beginRef st rSeed)) =
           data (pAlignment st)
           @ needlemanWunsch pQuery pRef (endOfLastSeedQuery st) (start rSeed)
               (endOfLastSeedReference st) (u64 (int (start_ref rSeed) - int beginRef))
           @ replicate (size' rSeed
                 - max (endOfLastSeedQuery st - start rSeed)
                       (endOfLastSeedReference st + beginRef - start_ref rSeed)) Match
           @ replicate ((endOfLastSeedQuery st - start rSeed)
                 - (endOfLastSeedReference st + beginRef - start_ref rSeed)) Deletion
           @ replicate ((endOfLastSeedReference st + beginRef - start_ref rSeed)
                 - (endOfLastSeedQuery st - start rSeed)) Insertion"
proof -
  let ?eq = "endOfLastSeedQuery st" and ?er = "endOfLastSeedReference st"
  let ?ovQ = "if start rSeed > ?eq then 0 else u64 (int ?eq - int (start rSeed))"
  let ?ovR = "if start_ref rSeed > ?er + beginRef then 0
              else u64 (int ?er - int (u64 (int (start_ref rSeed) - int beginRef)))"
  have q: "?ovQ = ?eq - start rSeed"
    using bq by (simp add: u64_diff_nat)
  have r: "?ovR = ?er + beginRef - start_ref rSeed"
  proof (cases "start_ref rSeed > ?er + beginRef")
    case True
    then show ?thesis by simp
  next
    case False
    have "int ?er - int (u64 (int (start_ref rSeed) - int beginRef))
            = int ?er - (int (start_ref rSeed) - int beginRef) mod 2 ^ 64"
      by (simp add: u64_def)
    then have "u64 (int ?er - int (u64 (int (start_ref rSeed) - int beginRef)))
            = u64 (int ?er - (int (start_ref rSeed) - int beginRef))"
      by (simp add: u64_def mod_diff_right_eq)
    also have "\<dots> = u64 (int (?er + beginRef) - int (start_ref rSeed))"
      by (simp add: algebra_simps)
    also have "\<dots> = ?er + beginRef - start_ref rSeed"
      using False br by (intro u64_diff_nat) simp_all
    finally show ?thesis using False by simp
  qed
  show ?thesis
    unfolding seedStep_def Let_def q r
    by (simp add: appendN_def max_def)
qed

text \<open>
  A chain end at query 10 and reference 110 (\<open>beginRef = 100\<close>), followed by the seed
  (q = 8, size 10, r = 110): query overlap 2, reference overlap 0, hence 8 matches and
  2 deletions. The same two seeds run through the whole of \<open>execute\<close> on a query of 18
  bases and the pack of 1000 bases.
\<close>

lemma nw_example_sort:
  "sort_key (\<lambda>s. (start s, start_ref s)) [mkSeed0 8 10 110, mkSeed0 0 10 100]
     = [mkSeed0 0 10 100, mkSeed0 8 10 110]"
  by (simp add: mkSeed0_def start_def start_ref_def)

lemma nw_example_extract:
  "vExtract pack_1000 100 120 = Inr [0, 0, 0, 0, 0, 0, 0, 0, 0, 0, 0, 0, 0, 0, 0, 0, 0, 0, 0, 0]"
  by (simp add: extract_eval pack_1000_def)

lemma nw_example_loop:
  "foldl (seedStep q r 100)
     \<lparr> endOfLastSeedQuery = 0, endOfLastSeedReference = 0, pAlignment = mkAlignment 100 120 \<rparr>
     [mkSeed0 0 10 100, mkSeed0 8 10 110]
   = \<lparr> endOfLastSeedQuery = 18, endOfLastSeedReference = 20,
       pAlignment = \<lparr> data = replicate 18 Match @ replicate 2 Deletion,
                      uiBeginOnRef = 100, uiEndOnRef = 120 \<rparr> \<rparr>"
  by (simp add: seedStep_def mkAlignment_def needlemanWunsch_def u64_def start_def start_ref_def
      size'_def end'_def end_ref_def appendN_def Let_def mkSeed0_def flip: replicate_add)

lemma nw_example_execute:
  "NeedlemanWunsch_execute [mkSeed0 8 10 110, mkSeed0 0 10 100] (replicate 18 0) pack_1000
   = Inr \<lparr> data = replicate 18 Match @ replicate 2 Deletion,
           uiBeginOnRef = 100, uiEndOnRef = 120 \<rparr>"
proof -
  have b: "start (hd [mkSeed0 0 10 100, mkSeed0 8 10 110]) = 0"
    "start_ref (hd [mkSeed0 0 10 100, mkSeed0 8 10 110]) = 100"
    "end' (last [mkSeed0 0 10 100, mkSeed0 8 10 110]) = 18"
    "end_ref (last [mkSeed0 0 10 100, mkSeed0 8 10 110]) = 120"
    by (simp_all add: mkSeed0_def start_def start_ref_def end'_def end_ref_def size'_def)
  have c: "uiUnpackedSizeForwardPlusReverse pack_1000 div 2 = 1000"
    by (simp add: uiUnpackedSizeForwardPlusReverse_def pack_1000_def)
  show ?thesis
    unfolding NeedlemanWunsch_execute_def nw_example_sort Let_def b c
    by (simp add: u64_def nw_example_extract nw_example_loop [simplified] needlemanWunsch_def)
qed

theorem overlap_runs_witness:
  "data (pAlignment (seedStep [] [] 100
      \<lparr> endOfLastSeedQuery = 10, endOfLastSeedReference = 10, pAlignment = mkAlignment 100 120 \<rparr>
      (mkSeed0 8 10 110)))
   = replicate 8 Match @ replicate 2 Deletion
   \<and> NeedlemanWunsch_execute [mkSeed0 8 10 110, mkSeed0 0 10 100] (replicate 18 0) pack_1000
   = Inr \<lparr> data = replicate 18 Match @ replicate 2 Deletion,
           uiBeginOnRef = 100, uiEndOnRef = 120 \<rparr>"
  using overlap_runs [of "\<lparr> endOfLastSeedQuery = 10, endOfLastSeedReference = 10,
                           pAlignment = mkAlignment 100 120 \<rparr>" 100 "[]" "[]" "mkSeed0 8 10 110"]
    nw_example_execute
  by (simp add: mkAlignment_def needlemanWunsch_def mkSeed0_def start_def start_ref_def size'_def
      u64_def)

section \<open>Reseeding inside a rectangle\<close>

text \<open>
  C9. In the fall-back to banded dynamic programming (a non-empty area whose sampled
  ambiguity is above the limit) the seeds of the reverse-complement alignment are taken
  exactly when its score is strictly greater than the score of the forward alignment;
  on equal scores the seeds of the forward alignment are returned.
\<close>

theorem dp_fallback_prefers_forward:
  assumes ne: "size' (xXAxis xArea) \<noteq> 0" "size' (xYAxis xArea) \<noteq> 0"
    and ex: "vExtract pRefSeq (i64 (int (start (xXAxis xArea)))) (i64 (int (end' (xXAxis xArea))))
             = Inr pRef"
    and rep: "\<not> ambiguityBelowLimit env
                 (sampleSequenceAmbiguity env pRef (vSwitchAllBasePairsToComplement (vReverseAll pRef)))
                 (size' (xXAxis xArea))"
  shows "computeSeedsArea env xArea pQuery pRefSeq rvRet =
           Inr (rvRet @
             (if score env (dpReverseAlignment env xArea pQuery
                              (vSwitchAllBasePairsToComplement (vReverseAll pRef)))
                   > score env (dpForwardAlignment env xArea pQuery pRef)
              then map (fixReverse xArea)
                     (toSeeds env (dpReverseAlignment env xArea pQuery
                                     (vSwitchAllBasePairsToComplement (vReverseAll pRef))) pRefSeq)
              else toSeeds env (dpForwardAlignment env xArea pQuery pRef) pRefSeq))"
  using ne rep by (simp add: computeSeedsArea_def ex Let_def not_less)

text \<open>
  The area of the bases GTC of the pack ACGTCA, with forward and reverse scores 7 and
  7, 7 and 8, 8 and 7.
\<close>

lemma dp_example_extract:
  "vExtract pack_ACGTCA (i64 (int (start (xXAxis (mkRectangle 2 0 3 3)))))
      (i64 (int (end' (xXAxis (mkRectangle 2 0 3 3))))) = Inr [2, 3, 1]"
  by (simp add: mkRectangle_def start_def end'_def extract_eval pack_ACGTCA_def)

lemma dp_example_revcomp:
  "vSwitchAllBasePairsToComplement (vReverseAll [2, 3, 1]) = [2, 0, 1]"
  by (simp add: vSwitchAllBasePairsToComplement_def vReverseAll_def nucleotideComplement_def)

theorem dp_fallback_prefers_forward_witness:
  "computeSeedsArea (exampleEnv 100 7 7) (mkRectangle 2 0 3 3) [2, 3, 1] pack_ACGTCA []
     = Inr [mkSeed 2 2 2 True]
   \<and> computeSeedsArea (exampleEnv 100 7 8) (mkRectangle 2 0 3 3) [2, 3, 1] pack_ACGTCA []
     = Inr [fixReverse (mkRectangle 2 0 3 3) (mkSeed 0 2 0 True)]
   \<and> computeSeedsArea (exampleEnv 100 8 7) (mkRectangle 2 0 3 3) [2, 3, 1] pack_ACGTCA []
     = Inr [mkSeed 2 2 2 True]"
proof -
  have ne: "size' (xXAxis (mkRectangle 2 0 3 3)) \<noteq> 0" "size' (xYAxis (mkRectangle 2 0 3 3)) \<noteq> 0"
    by (simp_all add: mkRectangle_def size'_def)
  have rep: "\<not> ambiguityBelowLimit (exampleEnv 100 fs rs)
                 (sampleSequenceAmbiguity (exampleEnv 100 fs rs) [2, 3, 1]
                    (vSwitchAllBasePairsToComplement (vReverseAll [2, 3, 1])))
                 (size' (xXAxis (mkRectangle 2 0 3 3)))" for fs rs
    by (simp add: exampleEnv_def mkRectangle_def size'_def)
  have sc: "score (exampleEnv 100 fs rs)
              (dpForwardAlignment (exampleEnv 100 fs rs) (mkRectangle 2 0 3 3) [2, 3, 1] [2, 3, 1]) = fs"
    "score (exampleEnv 100 fs rs)
              (dpReverseAlignment (exampleEnv 100 fs rs) (mkRectangle 2 0 3 3) [2, 3, 1] [2, 0, 1]) = rs"
    "toSeeds (exampleEnv 100 fs rs)
              (dpForwardAlignment (exampleEnv 100 fs rs) (mkRectangle 2 0 3 3) [2, 3, 1] [2, 3, 1]) p
       = [mkSeed 2 2 2 True]"
    "toSeeds (exampleEnv 100 fs rs)
              (dpReverseAlignment (exampleEnv 100 fs rs) (mkRectangle 2 0 3 3) [2, 3, 1] [2, 0, 1]) p
       = [mkSeed 0 2 0 True]" for fs rs p
    by (simp_all add: exampleEnv_def dpForwardAlignment_def dpReverseAlignment_def)
  show ?thesis
    using dp_fallback_prefers_forward [OF ne dp_example_extract rep, of 7 7 "[2, 3, 1]" "[]"]
      dp_fallback_prefers_forward [OF ne dp_example_extract rep, of 7 8 "[2, 3, 1]" "[]"]
      dp_fallback_prefers_forward [OF ne dp_example_extract rep, of 8 7 "[2, 3, 1]" "[]"]
    by (simp add: dp_example_revcomp sc)
qed

section \<open>Empty rectangles\<close>

text \<open>
  C6 (as amended). A rectangle of reference width 0 or query height 0 adds no seed to
  the result. For a pair of seeds whose two rectangles are both empty the reseeding
  finds nothing, so the recursion makes no further call and returns the jumps that the
  emission rule gives for the pair (dummy jumps next to the sentinel, otherwise the
  jumps between the two seeds that pass \<open>validJump\<close>).
\<close>

theorem empty_rectangles:
  assumes e1: "size' (xXAxis (fst xRectangles)) = 0 \<or> size' (xYAxis (fst xRectangles)) = 0"
    and e2: "size' (xXAxis (snd xRectangles)) = 0 \<or> size' (xYAxis (snd xRectangles)) = 0"
    and r: "getPositionsForSeeds cfg pRefSeq rLast rNext 0 (length pQuery) = xRectangles"
  shows "computeSeedsArea env (fst xRectangles) pQuery pRefSeq rvRet = Inr rvRet
       \<and> computeSeedsArea env (snd xRectangles) pQuery pRefSeq rvRet = Inr rvRet
       \<and> computeSeeds env xRectangles pQuery pRefSeq = Inr []
       \<and> makeJumpsByReseedingRecursive (Suc fuel) cfg env rLast rNext pQuery iId pRefSeq pRet
           = Inr (emitJumps cfg env rLast rNext pQuery iId pRet)"
proof -
  have a: "computeSeedsArea env (fst xRectangles) pQuery pRefSeq rv = Inr rv"
    "computeSeedsArea env (snd xRectangles) pQuery pRefSeq rv = Inr rv" for rv
    using e1 e2 by (simp_all add: computeSeedsArea_def)
  have c: "computeSeeds env xRectangles pQuery pRefSeq = Inr []"
    by (simp add: computeSeeds_def a)
  show ?thesis
    by (simp add: a c r ParlindromeFilter_execute_def)
qed

lemma zeroRectangles_empty:
  "size' (xXAxis (fst zeroRectangles)) = 0" "size' (xXAxis (snd zeroRectangles)) = 0"
  by (simp_all add: zeroRectangles_def mkRectangle_def size'_def)

lemma end_of_read_rectangles:
  "getPositionsForSeeds (config_S4 d) pack_2000 (SeedRef (mkSeed 90 10 500 True)) DummyRef 0
     (length (replicate 100 (0 :: 8 word))) = zeroRectangles"
  by (simp add: getPositionsForSeeds.simps deref_def end'_def mkSeed_def)

text \<open>
  A seed ending at the end of a read of 100 bases, followed by the sentinel, with
  \<open>uiMinDistDummy = 10\<close>: empty rectangles, no seeds, and no jump.
\<close>

theorem empty_rectangles_witness:
  "getPositionsForSeeds (config_S4 10) pack_2000 (SeedRef (mkSeed 90 10 500 True)) DummyRef 0
     (length (replicate 100 (0 :: 8 word))) = zeroRectangles
   \<and> computeSeeds (exampleEnv 0 7 7) zeroRectangles (replicate 100 0) pack_2000 = Inr []
   \<and> makeJumpsByReseedingRecursive (Suc 0) (config_S4 10) (exampleEnv 0 7 7)
        (SeedRef (mkSeed 90 10 500 True)) DummyRef (replicate 100 0) 7 pack_2000 [] = Inr []"
proof -
  note t = empty_rectangles [where env = "exampleEnv 0 7 7" and rvRet = "[]" and fuel = 0
      and iId = 7 and pRet = "[]", OF disjI1 disjI1 end_of_read_rectangles [of 10],
      OF zeroRectangles_empty]
  have e: "emitJumps (config_S4 10) (exampleEnv 0 7 7) (SeedRef (mkSeed 90 10 500 True)) DummyRef
             (replicate 100 0) 7 [] = []"
    by (simp add: emitJumps_def config_S4_def deref_def end'_def mkSeed_def)
  from t have c: "computeSeeds (exampleEnv 0 7 7) zeroRectangles (replicate 100 0) pack_2000 = Inr []"
    and m: "makeJumpsByReseedingRecursive (Suc 0) (config_S4 10) (exampleEnv 0 7 7)
        (SeedRef (mkSeed 90 10 500 True)) DummyRef (replicate 100 0) 7 pack_2000 []
         = Inr (emitJumps (config_S4 10) (exampleEnv 0 7 7) (SeedRef (mkSeed 90 10 500 True)) DummyRef
             (replicate 100 0) 7 [])"
    by blast+
  show ?thesis
    by (intro conjI end_of_read_rectangles c m [unfolded e])
qed

text \<open>
  C6 as stated has no jump emitted for a pair whose rectangles are empty. A seed that
  ends at the end of a read of 100 bases, followed by the sentinel: both rectangles are
  empty, and with \<open>uiMinDistDummy = 0\<close> the right dummy jump is emitted.
\<close>

theorem empty_rectangles_jump_counterexample:
  "getPositionsForSeeds (config_S4 0) pack_2000 (SeedRef (mkSeed 90 10 500 True)) DummyRef 0
     (length (replicate 100 (0 :: 8 word))) = zeroRectangles
   \<and> makeJumpsByReseedingRecursive (Suc 0) (config_S4 0) (exampleEnv 0 7 7)
        (SeedRef (mkSeed 90 10 500 True)) DummyRef (replicate 100 0) 7 pack_2000 []
       = Inr [DummyJump (mkSeed 90 10 500 True) 100 True 7 200]"
proof -
  have c: "computeSeeds (exampleEnv 0 7 7) zeroRectangles (replicate 100 0) pack_2000 = Inr []"
    by (simp add: computeSeeds_def computeSeedsArea_def zeroRectangles_empty)
  have e: "emitJumps (config_S4 0) (exampleEnv 0 7 7) (SeedRef (mkSeed 90 10 500 True)) DummyRef
             (replicate 100 0) 7 [] = [DummyJump (mkSeed 90 10 500 True) 100 True 7 200]"
    by (simp add: emitJumps_def config_S4_def deref_def end'_def mkSeed_def)
  have m: "makeJumpsByReseedingRecursive (Suc 0) (config_S4 0) (exampleEnv 0 7 7)
        (SeedRef (mkSeed 90 10 500 True)) DummyRef (replicate 100 0) 7 pack_2000 []
       = Inr (emitJumps (config_S4 0) (exampleEnv 0 7 7) (SeedRef (mkSeed 90 10 500 True)) DummyRef
             (replicate 100 0) 7 [])"
    unfolding makeJumpsByReseedingRecursive.simps end_of_read_rectangles c
    by (simp add: ParlindromeFilter_execute_def)
  show ?thesis
    by (intro conjI end_of_read_rectangles m [unfolded e])
qed

section \<open>Dummy jumps\<close>











section \<open>Rectangles between seeds\<close>

text \<open>
  The binary search returns the descriptor whose start offset is the last one not
  above the position searched for.
\<close>

lemma seqIdSearch_post:
  assumes "uiLeft < length ds" "uiLeft \<le> uiRight" "uiRight \<le> length ds"
    and "i64 (int (uiStartOffsetUnpacked (ds ! uiLeft))) \<le> a"
    and "uiRight < length ds \<longrightarrow> a < i64 (int (uiStartOffsetUnpacked (ds ! uiRight)))"
    and "length ds < 2 ^ 64"
  shows "seqIdSearch ds a uiLeft uiMid uiRight < length ds
       \<and> i64 (int (uiStartOffsetUnpacked (ds ! seqIdSearch ds a uiLeft uiMid uiRight))) \<le> a
       \<and> (seqIdSearch ds a uiLeft uiMid uiRight = length ds - 1
           \<or> a < i64 (int (uiStartOffsetUnpacked (ds ! (seqIdSearch ds a uiLeft uiMid uiRight + 1)))))"
  using assms
proof (induction ds a uiLeft uiMid uiRight rule: seqIdSearch.induct)
  case (1 ds a uiLeft uiMid uiRight)
  let ?m = "(uiLeft + uiRight) div 2"
  have lt: "uiLeft < uiRight"
  proof (rule ccontr)
    assume "\<not> uiLeft < uiRight"
    with "1.prems" have "uiLeft = uiRight" by simp
    with "1.prems" show False by auto
  qed
  then have m: "uiLeft \<le> ?m" "?m < uiRight" by simp_all
  have last: "u64 (int (length ds) - 1) = length ds - 1"
    using "1.prems" u64_diff_nat [of "length ds" 1] by simp
  show ?case
  proof (cases "a \<ge> i64 (int (uiStartOffsetUnpacked (ds ! ?m)))")
    case ge: True
    show ?thesis
    proof (cases "?m = length ds - 1")
      case True
      with ge lt m "1.prems" show ?thesis
        by (subst (1 2 3 4) seqIdSearch.simps) (simp add: last)
    next
      case nl: False
      show ?thesis
      proof (cases "a < i64 (int (uiStartOffsetUnpacked (ds ! (?m + 1))))")
        case True
        with ge lt m nl "1.prems" show ?thesis
          by (subst (1 2 3 4) seqIdSearch.simps) (simp add: last)
      next
        case False
        have "?m + 1 < length ds" using m nl "1.prems" by simp
        with False m "1.prems" have
          "seqIdSearch ds a (?m + 1) ?m uiRight < length ds
           \<and> i64 (int (uiStartOffsetUnpacked (ds ! seqIdSearch ds a (?m + 1) ?m uiRight))) \<le> a
           \<and> (seqIdSearch ds a (?m + 1) ?m uiRight = length ds - 1
             \<or> a < i64 (int (uiStartOffsetUnpacked (ds ! (seqIdSearch ds a (?m + 1) ?m uiRight + 1)))))"
          using ge lt nl last by (intro "1.IH"(1)) simp_all
        moreover have "seqIdSearch ds a uiLeft uiMid uiRight = seqIdSearch ds a (?m + 1) ?m uiRight"
          using ge lt nl False by (subst seqIdSearch.simps) (simp add: last)
        ultimately show ?thesis by simp
      qed
    qed
  next
    case False
    have "?m < length ds" using m "1.prems" by simp
    with False m "1.prems" have
      "seqIdSearch ds a uiLeft ?m ?m < length ds
       \<and> i64 (int (uiStartOffsetUnpacked (ds ! seqIdSearch ds a uiLeft ?m ?m))) \<le> a
       \<and> (seqIdSearch ds a uiLeft ?m ?m = length ds - 1
         \<or> a < i64 (int (uiStartOffsetUnpacked (ds ! (seqIdSearch ds a uiLeft ?m ?m + 1)))))"
      using lt by (intro "1.IH"(2)) simp_all
    moreover have "seqIdSearch ds a uiLeft uiMid uiRight = seqIdSearch ds a uiLeft ?m ?m"
      using lt False by (subst seqIdSearch.simps) simp
    ultimately show ?thesis by simp
  qed
qed


lemma checkDescriptors_chain:
  assumes "checkDescriptors L r ds" "i < length ds"
  shows "uiStartOffsetUnpacked (ds ! i) < L
       \<and> r \<le> uiStartOffsetUnpacked (ds ! i)
       \<and> (if i + 1 < length ds
          then uiStartOffsetUnpacked (ds ! (i + 1))
                = uiStartOffsetUnpacked (ds ! i) + uiLengthUnpacked (ds ! i)
          else uiStartOffsetUnpacked (ds ! i) + uiLengthUnpacked (ds ! i) = L)"
  using assms
proof (induction ds arbitrary: r i)
  case Nil
  then show ?case by simp
next
  case (Cons d ds)
  from Cons.prems have d: "r < L" "uiStartOffsetUnpacked d = r"
    and rest: "checkDescriptors L (r + uiLengthUnpacked d) ds"
    by (simp_all split: if_splits)
  show ?case
  proof (cases i)
    case 0
    show ?thesis
    proof (cases ds)
      case Nil
      with 0 d rest show ?thesis by simp
    next
      case (Cons e es)
      with rest have "uiStartOffsetUnpacked e = r + uiLengthUnpacked d"
        by (simp split: if_splits)
      with 0 d Cons show ?thesis by simp
    qed
  next
    case (Suc j)
    with Cons.prems have "j < length ds" by simp
    from Cons.IH [OF rest this] Suc show ?thesis by auto
  qed
qed

lemma checkDescriptors_head:
  "checkDescriptors L r ds \<Longrightarrow> ds \<noteq> [] \<Longrightarrow> uiStartOffsetUnpacked (ds ! 0) = r"
  by (cases ds) (simp_all split: if_splits)

lemma checkDescriptors_nonempty:
  "checkDescriptors L 0 ds \<Longrightarrow> 0 < L \<Longrightarrow> ds \<noteq> []"
  by (cases ds) simp_all

lemma lookup_contig:
  assumes ok: "checkForDefect p" and ad: "addressable p"
    and pos: "pos \<le> uiUnpackedSizeForwardStrand p" "0 < uiUnpackedSizeForwardStrand p"
  shows "\<exists>c < length (xVectorOfSequenceDescriptors p).
           uiSequenceIdForPosition p pos = int c
           \<and> startOfSequenceWithId p (int c) \<le> pos
           \<and> pos \<le> endOfSequenceWithId p (int c)
           \<and> startOfSequenceWithId p (int c) = uiStartOffsetUnpacked (xVectorOfSequenceDescriptors p ! c)
           \<and> endOfSequenceWithId p (int c) = uiStartOffsetUnpacked (xVectorOfSequenceDescriptors p ! c)
                 + uiLengthUnpacked (xVectorOfSequenceDescriptors p ! c)
           \<and> endOfSequenceWithId p (int c) \<le> uiUnpackedSizeForwardStrand p"
proof -
  let ?L = "uiUnpackedSizeForwardStrand p" and ?ds = "xVectorOfSequenceDescriptors p"
  have L: "2 * int ?L < 2 ^ 63" and n: "length ?ds < 2 ^ 64"
    using ad by (simp_all add: addressable_def)
  have chk: "checkDescriptors ?L 0 ?ds" using ok by (simp add: checkForDefect_def)
  have ne: "?ds \<noteq> []" using checkDescriptors_nonempty [OF chk pos(2)] .
  define a where "a = (if pos < ?L then int pos else int ?L - 1)"
  have abs: "iAbsolutePosition p pos = a"
  proof (cases "pos < ?L")
    case True
    then show ?thesis
      using L by (simp add: a_def iAbsolutePosition_def bPositionIsOnReversStrand_def
          uiStartOfReverseStrand_def i64_id)
  next
    case False
    with pos have "pos = ?L" by simp
    then show ?thesis
      using iAbsolutePosition_reverse [OF L, of "int ?L"] by (simp add: a_def)
  qed
  have a: "0 \<le> a" "a < int ?L" using pos by (simp_all add: a_def)
  have st: "i64 (int (uiStartOffsetUnpacked (?ds ! i))) = int (uiStartOffsetUnpacked (?ds ! i))"
    if "i < length ?ds" for i
    using checkDescriptors_chain [OF chk that] L by (intro i64_id) simp_all
  have h0: "i64 (int (uiStartOffsetUnpacked (?ds ! 0))) \<le> a"
    using checkDescriptors_head [OF chk ne] a ne by (simp add: i64_def)
  define c where "c = seqIdSearch ?ds a 0 0 (length ?ds)"
  have post: "c < length ?ds \<and> i64 (int (uiStartOffsetUnpacked (?ds ! c))) \<le> a
       \<and> (c = length ?ds - 1 \<or> a < i64 (int (uiStartOffsetUnpacked (?ds ! (c + 1)))))"
    unfolding c_def using ne h0 n by (intro seqIdSearch_post) simp_all
  then have c: "c < length ?ds" by simp
  have lo: "int (uiStartOffsetUnpacked (?ds ! c)) \<le> a"
    using post st [OF c] by simp
  note ch = checkDescriptors_chain [OF chk c]
  have hi: "a < int (uiStartOffsetUnpacked (?ds ! c) + uiLengthUnpacked (?ds ! c))"
  proof (cases "c + 1 < length ?ds")
    case True
    with post have "a < i64 (int (uiStartOffsetUnpacked (?ds ! (c + 1))))" by auto
    then have "a < int (uiStartOffsetUnpacked (?ds ! (c + 1)))"
      unfolding st [OF True] .
    with True ch show ?thesis by simp
  next
    case False
    with ch a show ?thesis by simp
  qed
  have le: "uiStartOffsetUnpacked (?ds ! c) + uiLengthUnpacked (?ds ! c) \<le> ?L"
  proof (cases "c + 1 < length ?ds")
    case True
    with ch checkDescriptors_chain [OF chk True] show ?thesis by simp
  next
    case False
    with ch show ?thesis by simp
  qed
  have "uiSequenceIdForPosition p pos = int c"
    by (simp add: uiSequenceIdForPosition_def abs c_def)
  moreover have "uiStartOffsetUnpacked (?ds ! c) \<le> pos"
    using lo a by (simp add: a_def split: if_splits)
  moreover have "pos \<le> uiStartOffsetUnpacked (?ds ! c) + uiLengthUnpacked (?ds ! c)"
    using hi pos by (simp add: a_def split: if_splits)
  ultimately show ?thesis
    using c le by (auto simp add: startOfSequenceWithId_def endOfSequenceWithId_def)
qed

text \<open>
  The rectangle next to the sentinel, for a gap on the query below \<open>2^51\<close>, where the
  product with the factor 1.5 is exact in a \<open>double\<close>: \<open>iQueryDistance\<close> lies between 0
  and \<open>iMaxSizeReseed / 2\<close>, and the reference interval is cut at the contig that holds
  the end of the seed.
\<close>

lemma iQueryDistance_bounds:
  "0 \<le> iMaxSizeReseed cfg \<Longrightarrow> x < 2 ^ 51 \<Longrightarrow>
     0 \<le> iQueryDistance cfg x \<and> iQueryDistance cfg x \<le> halfMaxSizeReseed cfg"
  by (simp add: iQueryDistance_def halfMaxSizeReseed_def timesExtraSeedingAreaFactor_def)

lemma halfMaxSizeReseed_bounds:
  "0 \<le> iMaxSizeReseed cfg \<Longrightarrow> iMaxSizeReseed cfg < 2 ^ 62 \<Longrightarrow>
     0 \<le> halfMaxSizeReseed cfg \<and> halfMaxSizeReseed cfg < 2 ^ 61"
  by (simp add: halfMaxSizeReseed_def)

lemma withinOneContigI:
  assumes "c < length (xVectorOfSequenceDescriptors p)"
    and "uiStartOffsetUnpacked (xVectorOfSequenceDescriptors p ! c) \<le> a"
    and "a + w \<le> uiStartOffsetUnpacked (xVectorOfSequenceDescriptors p ! c)
                 + uiLengthUnpacked (xVectorOfSequenceDescriptors p ! c)"
  shows "withinOneContig p (mkRectangle a y w h)"
  unfolding withinOneContig_def list_ex_iff
  using assms nth_mem [OF assms(1)]
  by (auto simp add: mkRectangle_def start_def end'_def size'_def)

lemma withinOneContig_zero: "withinOneContig p (mkRectangle a y 0 h)"
  by (simp add: withinOneContig_def mkRectangle_def size'_def)

lemma rectangle_between:
  assumes "0 \<le> lo" "lo \<le> hi" "hi < 2 ^ 63"
    and "c < length (xVectorOfSequenceDescriptors p)"
    and "int (uiStartOffsetUnpacked (xVectorOfSequenceDescriptors p ! c)) \<le> lo"
    and "hi \<le> int (uiStartOffsetUnpacked (xVectorOfSequenceDescriptors p ! c)
                 + uiLengthUnpacked (xVectorOfSequenceDescriptors p ! c))"
    and "hi - lo \<le> m"
  shows "size' (xXAxis (mkRectangle (u64 lo) y (u64 (hi - lo)) h)) \<le> nat m
       \<and> withinOneContig p (mkRectangle (u64 lo) y (u64 (hi - lo)) h)"
proof -
  have lo: "u64 lo = nat lo" using assms(1-3) by (simp add: u64_def)
  have sz: "u64 (hi - lo) = nat (hi - lo)" using assms(1-3) by (simp add: u64_def)
  have "withinOneContig p (mkRectangle (nat lo) y (nat (hi - lo)) h)"
    using assms by (intro withinOneContigI [of c]) simp_all
  moreover have "nat (hi - lo) \<le> nat m" using assms(7) by simp
  ultimately show ?thesis
    by (simp add: lo sz mkRectangle_def size'_def)
qed


lemma zeroRectangle_ok:
  "size' (xXAxis (fst zeroRectangles)) \<le> nat m \<and> withinOneContig p (fst zeroRectangles)"
  by (simp add: zeroRectangles_def withinOneContig_zero) (simp add: mkRectangle_def size'_def)

lemma getPositionsForSeeds_dummy_cases:
  assumes "rLast = DummyRef \<or> rNext = DummyRef"
  shows "getPositionsForSeeds cfg p rLast rNext qs qe = zeroRectangles
       \<or> fst (getPositionsForSeeds cfg p rLast rNext qs qe)
          = mkRectangle
              (u64 (min (lastRef cfg p rLast rNext qs) (nextRef cfg p rLast rNext qe)))
              (u64 (if rLast \<noteq> DummyRef then i64 (int (end' (deref cfg rLast)))
                    else i64 (int qs)))
              (u64 (max (lastRef cfg p rLast rNext qs) (nextRef cfg p rLast rNext qe)
                    - min (lastRef cfg p rLast rNext qs) (nextRef cfg p rLast rNext qe)))
              (u64 ((if rNext \<noteq> DummyRef then i64 (int (start (deref cfg rNext)))
                     else i64 (int qe))
                    - (if rLast \<noteq> DummyRef then i64 (int (end' (deref cfg rLast)))
                       else i64 (int qs))))"
proof -
  define a where "a = lastRef cfg p rLast rNext qs"
  define b where "b = nextRef cfg p rLast rNext qe"
  note s = getPositionsForSeeds.simps [of cfg p rLast rNext qs qe,
      folded a_def b_def, unfolded Let_def]
  show ?thesis
    unfolding a_def [symmetric] b_def [symmetric]
    using assms by (subst (1 2) s) auto
qed

lemma dummy_side_rectangle:
  assumes cases: "rLast = DummyRef \<or> rNext = DummyRef"
    and lo: "0 \<le> min (lastRef cfg p rLast rNext qs) (nextRef cfg p rLast rNext qe)"
    and hi: "max (lastRef cfg p rLast rNext qs) (nextRef cfg p rLast rNext qe) < 2 ^ 63"
    and c: "c < length (xVectorOfSequenceDescriptors p)"
    and st: "int (uiStartOffsetUnpacked (xVectorOfSequenceDescriptors p ! c))
               \<le> min (lastRef cfg p rLast rNext qs) (nextRef cfg p rLast rNext qe)"
    and en: "max (lastRef cfg p rLast rNext qs) (nextRef cfg p rLast rNext qe)
               \<le> int (uiStartOffsetUnpacked (xVectorOfSequenceDescriptors p ! c)
                        + uiLengthUnpacked (xVectorOfSequenceDescriptors p ! c))"
    and w: "max (lastRef cfg p rLast rNext qs) (nextRef cfg p rLast rNext qe)
              - min (lastRef cfg p rLast rNext qs) (nextRef cfg p rLast rNext qe) \<le> m"
  shows "size' (xXAxis (fst (getPositionsForSeeds cfg p rLast rNext qs qe))) \<le> nat m
       \<and> withinOneContig p (fst (getPositionsForSeeds cfg p rLast rNext qs qe))"
proof -
  have mm: "min (lastRef cfg p rLast rNext qs) (nextRef cfg p rLast rNext qe)
             \<le> max (lastRef cfg p rLast rNext qs) (nextRef cfg p rLast rNext qe)"
    by simp
  from getPositionsForSeeds_dummy_cases [OF cases, of cfg p qs qe]
  show ?thesis
  proof
    assume "getPositionsForSeeds cfg p rLast rNext qs qe = zeroRectangles"
    then show ?thesis using zeroRectangle_ok [of m p] by simp
  next
    assume r: "fst (getPositionsForSeeds cfg p rLast rNext qs qe)
          = mkRectangle
              (u64 (min (lastRef cfg p rLast rNext qs) (nextRef cfg p rLast rNext qe)))
              (u64 (if rLast \<noteq> DummyRef then i64 (int (end' (deref cfg rLast)))
                    else i64 (int qs)))
              (u64 (max (lastRef cfg p rLast rNext qs) (nextRef cfg p rLast rNext qe)
                    - min (lastRef cfg p rLast rNext qs) (nextRef cfg p rLast rNext qe)))
              (u64 ((if rNext \<noteq> DummyRef then i64 (int (start (deref cfg rNext)))
                     else i64 (int qe))
                    - (if rLast \<noteq> DummyRef then i64 (int (end' (deref cfg rLast)))
                       else i64 (int qs))))"
    show ?thesis
      unfolding r by (rule rectangle_between [OF lo mm hi c st en w])
  qed
qed


lemma next_dummy_rectangle:
  assumes ok: "checkForDefect p" and ad: "addressable p"
    and Lpos: "0 < uiUnpackedSizeForwardStrand p"
    and m0: "0 \<le> iMaxSizeReseed cfg" and m1: "iMaxSizeReseed cfg < 2 ^ 62"
    and on: "seedOnReference p l"
    and gap: "qe - end' l < 2 ^ 51"
  shows "size' (xXAxis (fst (getPositionsForSeeds cfg p (SeedRef l) DummyRef qs qe)))
           \<le> nat (halfMaxSizeReseed cfg)
       \<and> withinOneContig p (fst (getPositionsForSeeds cfg p (SeedRef l) DummyRef qs qe))"
proof (cases "qe \<le> end' l")
  case True
  then have "getPositionsForSeeds cfg p (SeedRef l) DummyRef qs qe = zeroRectangles"
    by (subst getPositionsForSeeds.simps) (simp add: deref_def)
  then show ?thesis using zeroRectangle_ok [of "halfMaxSizeReseed cfg" p] by simp
next
  case inside: False
  let ?L = "uiUnpackedSizeForwardStrand p" and ?ds = "xVectorOfSequenceDescriptors p"
  have x: "u64 (int qe - int (end' l)) < 2 ^ 51"
  proof -
    have eq: "int qe - int (end' l) = int (qe - end' l)" using inside by simp
    have k: "qe - end' l < 2 ^ 64" by (rule less_trans [OF gap]) simp
    have "u64 (int (qe - end' l)) = nat (int (qe - end' l))"
      by (rule u64_nat) (use k in simp_all)
    then show ?thesis unfolding eq using gap by simp
  qed
  define qd where "qd = iQueryDistance cfg (u64 (int qe - int (end' l)))"
  have qd: "0 \<le> qd" "qd \<le> halfMaxSizeReseed cfg"
    using iQueryDistance_bounds [OF m0 x] by (simp_all add: qd_def)
  have hm: "halfMaxSizeReseed cfg < 2 ^ 61"
    using halfMaxSizeReseed_bounds [OF m0 m1] by simp
  have L: "int ?L < 2 ^ 62" using ad by (simp add: addressable_def)
  show ?thesis
  proof (cases "bOnForwStrand l")
    case True
    with on have e: "end_ref l \<le> ?L" by (simp add: seedOnReference_def)
    from lookup_contig [OF ok ad e Lpos] obtain c where c: "c < length ?ds"
      and id: "uiSequenceIdForPosition p (end_ref l) = int c"
      and st: "uiStartOffsetUnpacked (?ds ! c) \<le> end_ref l"
      and en: "end_ref l \<le> uiStartOffsetUnpacked (?ds ! c) + uiLengthUnpacked (?ds ! c)"
      and eq: "endOfSequenceWithId p (int c)
                 = uiStartOffsetUnpacked (?ds ! c) + uiLengthUnpacked (?ds ! c)"
      and le: "endOfSequenceWithId p (int c) \<le> ?L"
      by auto
    have a: "lastRef cfg p (SeedRef l) DummyRef qs = int (end_ref l)"
      using True e L by (simp add: lastRef_def deref_def i64_id)
    have i1: "i64 (int (endOfSequenceWithId p (int c))) = int (endOfSequenceWithId p (int c))"
      using le L by (intro i64_id) simp_all
    have i2: "i64 (int (end_ref l) + qd) = int (end_ref l) + qd"
      using e L qd hm by (intro i64_id) simp_all
    have b: "nextRef cfg p (SeedRef l) DummyRef qe
               = min (int (endOfSequenceWithId p (int c))) (int (end_ref l) + qd)"
      using True by (simp add: nextRef_def deref_def id qd_def [symmetric] i1 i2)
    show ?thesis
      using c st en e L qd le
      by (intro dummy_side_rectangle [where c = c]) (simp_all add: a b eq)
  next
    case False
    with on have sz: "size' l \<le> start_ref l + 1" and sr: "start_ref l < ?L"
      by (simp_all add: seedOnReference_def)
    define low where "low = start_ref l + 1 - size' l"
    have low: "low \<le> ?L" "int low = int (start_ref l) + 1 - int (size' l)"
      using sz sr by (simp_all add: low_def)
    have u: "u64 (int (start_ref l) + 1 - int (size' l)) = low"
      using low L by (simp add: u64_def)
    from lookup_contig [OF ok ad low(1) Lpos] obtain c where c: "c < length ?ds"
      and id: "uiSequenceIdForPosition p low = int c"
      and st: "uiStartOffsetUnpacked (?ds ! c) \<le> low"
      and en: "low \<le> uiStartOffsetUnpacked (?ds ! c) + uiLengthUnpacked (?ds ! c)"
      and eq: "startOfSequenceWithId p (int c) = uiStartOffsetUnpacked (?ds ! c)"
      by auto
    have "i64 (int low) = int low" using low L by (intro i64_id) simp_all
    then have a: "lastRef cfg p (SeedRef l) DummyRef qs = int low"
      using False by (simp add: lastRef_def deref_def low(2) algebra_simps)
    have i1: "i64 (int (uiStartOffsetUnpacked (?ds ! c))) = int (uiStartOffsetUnpacked (?ds ! c))"
      using st low L by (intro i64_id) simp_all
    have "i64 (int low - qd) = int low - qd"
      using low L qd hm by (intro i64_id) simp_all
    then have i2: "i64 (int (start_ref l) + 1 - (int (size' l) + qd)) = int low - qd"
      by (simp add: low(2) algebra_simps)
    have b: "nextRef cfg p (SeedRef l) DummyRef qe
               = max (int (uiStartOffsetUnpacked (?ds ! c))) (int low - qd)"
      using False by (simp add: nextRef_def deref_def u id eq qd_def [symmetric] i1 i2)
    show ?thesis
      using c st en low L qd
      by (intro dummy_side_rectangle [where c = c]) (simp_all add: a b)
  qed
qed

lemma last_dummy_rectangle:
  assumes ok: "checkForDefect p" and ad: "addressable p"
    and Lpos: "0 < uiUnpackedSizeForwardStrand p"
    and m0: "0 \<le> iMaxSizeReseed cfg" and m1: "iMaxSizeReseed cfg < 2 ^ 62"
    and on: "seedOnReference p n"
    and gap: "start n - qs < 2 ^ 51"
  shows "size' (xXAxis (fst (getPositionsForSeeds cfg p DummyRef (SeedRef n) qs qe)))
           \<le> nat (halfMaxSizeReseed cfg)
       \<and> withinOneContig p (fst (getPositionsForSeeds cfg p DummyRef (SeedRef n) qs qe))"
proof (cases "start n \<le> qs")
  case True
  then have "getPositionsForSeeds cfg p DummyRef (SeedRef n) qs qe = zeroRectangles"
    by (subst getPositionsForSeeds.simps) (simp add: deref_def)
  then show ?thesis using zeroRectangle_ok [of "halfMaxSizeReseed cfg" p] by simp
next
  case inside: False
  let ?L = "uiUnpackedSizeForwardStrand p" and ?ds = "xVectorOfSequenceDescriptors p"
  have x: "u64 (int (start n) - int qs) < 2 ^ 51"
  proof -
    have eq: "int (start n) - int qs = int (start n - qs)" using inside by simp
    have k: "start n - qs < 2 ^ 64" by (rule less_trans [OF gap]) simp
    have "u64 (int (start n - qs)) = nat (int (start n - qs))"
      by (rule u64_nat) (use k in simp_all)
    then show ?thesis unfolding eq using gap by simp
  qed
  define qd where "qd = iQueryDistance cfg (u64 (int (start n) - int qs))"
  have qd: "0 \<le> qd" "qd \<le> halfMaxSizeReseed cfg"
    using iQueryDistance_bounds [OF m0 x] by (simp_all add: qd_def)
  have hm: "halfMaxSizeReseed cfg < 2 ^ 61"
    using halfMaxSizeReseed_bounds [OF m0 m1] by simp
  have L: "int ?L < 2 ^ 62" using ad by (simp add: addressable_def)
  show ?thesis
  proof (cases "bOnForwStrand n")
    case True
    with on have "end_ref n \<le> ?L" by (simp add: seedOnReference_def)
    then have e: "start_ref n \<le> ?L" by (simp add: end_ref_def start_ref_def)
    from lookup_contig [OF ok ad e Lpos] obtain c where c: "c < length ?ds"
      and id: "uiSequenceIdForPosition p (start_ref n) = int c"
      and st: "uiStartOffsetUnpacked (?ds ! c) \<le> start_ref n"
      and en: "start_ref n \<le> uiStartOffsetUnpacked (?ds ! c) + uiLengthUnpacked (?ds ! c)"
      and eq: "startOfSequenceWithId p (int c) = uiStartOffsetUnpacked (?ds ! c)"
      by auto
    have b: "nextRef cfg p DummyRef (SeedRef n) qe = int (start_ref n)"
      using True e L by (simp add: nextRef_def deref_def i64_id)
    have i1: "i64 (int (uiStartOffsetUnpacked (?ds ! c))) = int (uiStartOffsetUnpacked (?ds ! c))"
      using st e L by (intro i64_id) simp_all
    have i2: "i64 (int (start_ref n) - qd) = int (start_ref n) - qd"
      using e L qd hm by (intro i64_id) simp_all
    have a: "lastRef cfg p DummyRef (SeedRef n) qs
               = max (int (uiStartOffsetUnpacked (?ds ! c))) (int (start_ref n) - qd)"
      using True by (simp add: lastRef_def deref_def id eq qd_def [symmetric] i1 i2)
    show ?thesis
      using c st en e L qd
      by (intro dummy_side_rectangle [where c = c]) (simp_all add: a b)
  next
    case False
    with on have sr: "start_ref n + 1 \<le> ?L" by (simp add: seedOnReference_def)
    from lookup_contig [OF ok ad sr Lpos] obtain c where c: "c < length ?ds"
      and id: "uiSequenceIdForPosition p (start_ref n + 1) = int c"
      and st: "uiStartOffsetUnpacked (?ds ! c) \<le> start_ref n + 1"
      and en: "start_ref n + 1 \<le> uiStartOffsetUnpacked (?ds ! c) + uiLengthUnpacked (?ds ! c)"
      and eq: "endOfSequenceWithId p (int c)
                 = uiStartOffsetUnpacked (?ds ! c) + uiLengthUnpacked (?ds ! c)"
      and le: "endOfSequenceWithId p (int c) \<le> ?L"
      by auto
    have b: "nextRef cfg p DummyRef (SeedRef n) qe = int (start_ref n) + 1"
      using False sr L by (simp add: nextRef_def deref_def i64_id)
    have i1: "i64 (int (endOfSequenceWithId p (int c))) = int (endOfSequenceWithId p (int c))"
      using le L by (intro i64_id) simp_all
    have i2: "i64 (int (start_ref n) + 1 + qd) = int (start_ref n) + 1 + qd"
      using sr L qd hm by (intro i64_id) simp_all
    have id': "uiSequenceIdForPosition p (Suc (start_ref n)) = int c"
      using id by simp
    have a: "lastRef cfg p DummyRef (SeedRef n) qs
               = min (int (endOfSequenceWithId p (int c))) (int (start_ref n) + 1 + qd)"
      using False by (simp add: lastRef_def deref_def id' qd_def [symmetric] i1 i2)
    show ?thesis
      using c st en sr L qd le
      by (intro dummy_side_rectangle [where c = c]) (simp_all add: a b eq)
  qed
qed

section \<open>Separate rectangles for two seeds\<close>

text \<open>
  C4 (as amended). On a pack that passes \<open>checkForDefect\<close>, for two real seeds lying on
  the reference, with the first ending before \<open>uiQEnd\<close> and the second starting after
  \<open>uiQStart\<close>, and with a gap between them on the query below \<open>2^51\<close> (where the product
  with the factor 1.5, computed in a \<open>double\<close>, is exact): if \<open>iLastRef\<close> and \<open>iNextRef\<close>
  differ and the seeds are on different strands, or point in the wrong direction, or
  are further apart than \<open>iMaxSizeReseed\<close>, or \<open>iLastRef\<close> and \<open>iNextRef - 1\<close> lie in
  different contigs, then the result is the pair
  of the rectangle computed with the sentinel in place of the second seed and the
  rectangle computed with the sentinel in place of the first, both over the query
  interval between the seeds. Each of the two is at most \<open>iMaxSizeReseed / 2\<close> wide on
  the reference and lies inside one contig.
\<close>

theorem split_rectangles:
  assumes ok: "checkForDefect pRefSeq" and ad: "addressable pRefSeq"
    and Lpos: "0 < uiUnpackedSizeForwardStrand pRefSeq"
    and m0: "0 \<le> iMaxSizeReseed cfg" and m1: "iMaxSizeReseed cfg < 2 ^ 62"
    and onl: "seedOnReference pRefSeq l" and onn: "seedOnReference pRefSeq n"
    and qe: "end' l < uiQEnd" and qs: "uiQStart < start n"
    and gap: "start n - end' l < 2 ^ 51"
    and ne: "lastRef cfg pRefSeq (SeedRef l) (SeedRef n) uiQStart
               \<noteq> nextRef cfg pRefSeq (SeedRef l) (SeedRef n) uiQEnd"
    and sp: "splitNeeded cfg pRefSeq l n (lastRef cfg pRefSeq (SeedRef l) (SeedRef n) uiQStart)
               (nextRef cfg pRefSeq (SeedRef l) (SeedRef n) uiQEnd)"
  shows "getPositionsForSeeds cfg pRefSeq (SeedRef l) (SeedRef n) uiQStart uiQEnd
           = (fst (getPositionsForSeeds cfg pRefSeq (SeedRef l) DummyRef (end' l) (start n)),
              fst (getPositionsForSeeds cfg pRefSeq DummyRef (SeedRef n) (end' l) (start n)))
       \<and> size' (xXAxis (fst (getPositionsForSeeds cfg pRefSeq (SeedRef l) DummyRef (end' l) (start n))))
           \<le> nat (halfMaxSizeReseed cfg)
       \<and> withinOneContig pRefSeq
           (fst (getPositionsForSeeds cfg pRefSeq (SeedRef l) DummyRef (end' l) (start n)))
       \<and> size' (xXAxis (fst (getPositionsForSeeds cfg pRefSeq DummyRef (SeedRef n) (end' l) (start n))))
           \<le> nat (halfMaxSizeReseed cfg)
       \<and> withinOneContig pRefSeq
           (fst (getPositionsForSeeds cfg pRefSeq DummyRef (SeedRef n) (end' l) (start n)))"
proof -
  have eq: "getPositionsForSeeds cfg pRefSeq (SeedRef l) (SeedRef n) uiQStart uiQEnd
           = (fst (getPositionsForSeeds cfg pRefSeq (SeedRef l) DummyRef (end' l) (start n)),
              fst (getPositionsForSeeds cfg pRefSeq DummyRef (SeedRef n) (end' l) (start n)))"
  proof (cases "start n < end' l")
    case True
    have "getPositionsForSeeds cfg pRefSeq (SeedRef l) (SeedRef n) uiQStart uiQEnd = zeroRectangles"
      using True by (subst getPositionsForSeeds.simps) (simp add: deref_def)
    moreover have "getPositionsForSeeds cfg pRefSeq (SeedRef l) DummyRef (end' l) (start n)
                    = zeroRectangles"
      using True by (subst getPositionsForSeeds.simps) (simp add: deref_def)
    moreover have "getPositionsForSeeds cfg pRefSeq DummyRef (SeedRef n) (end' l) (start n)
                    = zeroRectangles"
      using True by (subst getPositionsForSeeds.simps) (simp add: deref_def)
    ultimately show ?thesis by (simp add: zeroRectangles_def)
  next
    case False
    then show ?thesis
      using qe qs ne sp by (subst getPositionsForSeeds.simps) (simp add: deref_def)
  qed
  show ?thesis
    using eq next_dummy_rectangle [OF ok ad Lpos m0 m1 onl gap, of "end' l"]
      last_dummy_rectangle [OF ok ad Lpos m0 m1 onn gap, of "start n"]
    by blast
qed


text \<open>
  Scenario S3: contigs ending at 100 and 200, a forward seed ending at 95 on the
  reference and a forward seed starting at 150.
\<close>

lemma S3_pack_ok: "checkForDefect pack_two_contigs" "addressable pack_two_contigs"
  "0 < uiUnpackedSizeForwardStrand pack_two_contigs"
  by (simp_all add: checkForDefect_def addressable_def pack_two_contigs_def)

lemma S3_config_ok: "0 \<le> iMaxSizeReseed config_S3" "iMaxSizeReseed config_S3 < 2 ^ 62"
  by (simp_all add: config_S3_def)

lemma S3_lookup:
  "uiSequenceIdForPosition pack_two_contigs 95 = 0"
  "uiSequenceIdForPosition pack_two_contigs 149 = 1"
  "uiSequenceIdForPosition pack_two_contigs 150 = 1"
  by (simp_all add: uiSequenceIdForPosition_def iAbsolutePosition_def
      bPositionIsOnReversStrand_def uiStartOfReverseStrand_def pack_two_contigs_def
      seqIdSearch.simps i64_def u64_def)

lemma S3_refs:
  "lastRef config_S3 pack_two_contigs (SeedRef (mkSeed 0 10 85 True))
     (SeedRef (mkSeed 60 10 150 True)) 0 = 95"
  "nextRef config_S3 pack_two_contigs (SeedRef (mkSeed 0 10 85 True))
     (SeedRef (mkSeed 60 10 150 True)) 100 = 150"
  by (simp_all add: lastRef_def nextRef_def deref_def mkSeed_def end_ref_def start_ref_def
      size'_def i64_def)

lemma S3_split:
  "splitNeeded config_S3 pack_two_contigs (mkSeed 0 10 85 True) (mkSeed 60 10 150 True) 95 150"
  by (simp add: splitNeeded_def u64_def S3_lookup)

lemma S3_right:
  "fst (getPositionsForSeeds config_S3 pack_two_contigs (SeedRef (mkSeed 0 10 85 True)) DummyRef
          10 60) = mkRectangle 95 10 5 50"
proof -
  have a: "lastRef config_S3 pack_two_contigs (SeedRef (mkSeed 0 10 85 True)) DummyRef 10 = 95"
    by (simp add: lastRef_def deref_def mkSeed_def end_ref_def start_ref_def size'_def i64_def)
  have e: "endOfSequenceWithId pack_two_contigs 0 = 100"
    by (simp add: endOfSequenceWithId_def startOfSequenceWithId_def pack_two_contigs_def)
  have q: "iQueryDistance config_S3 50 = 75"
    by (simp add: iQueryDistance_def timesExtraSeedingAreaFactor_def halfMaxSizeReseed_def
        config_S3_def)
  have b: "nextRef config_S3 pack_two_contigs (SeedRef (mkSeed 0 10 85 True)) DummyRef 60 = 100"
    by (simp add: nextRef_def deref_def mkSeed_def end_ref_def start_ref_def size'_def end'_def
        S3_lookup e u64_def q) (simp add: i64_def)
  show ?thesis
    by (subst getPositionsForSeeds.simps)
      (simp add: a b deref_def, simp add: mkSeed_def end'_def i64_def u64_def)
qed


lemma S3_left:
  "fst (getPositionsForSeeds config_S3 pack_two_contigs DummyRef (SeedRef (mkSeed 60 10 150 True))
          10 60) = mkRectangle 100 10 50 50"
proof -
  have b: "nextRef config_S3 pack_two_contigs DummyRef (SeedRef (mkSeed 60 10 150 True)) 60 = 150"
    by (simp add: nextRef_def deref_def mkSeed_def end_ref_def start_ref_def size'_def i64_def)
  have e: "startOfSequenceWithId pack_two_contigs 1 = 100"
    by (simp add: startOfSequenceWithId_def pack_two_contigs_def)
  have q: "iQueryDistance config_S3 50 = 75"
    by (simp add: iQueryDistance_def timesExtraSeedingAreaFactor_def halfMaxSizeReseed_def
        config_S3_def)
  have a: "lastRef config_S3 pack_two_contigs DummyRef (SeedRef (mkSeed 60 10 150 True)) 10 = 100"
    by (simp add: lastRef_def deref_def mkSeed_def end_ref_def start_ref_def size'_def start_def
        S3_lookup e u64_def q) (simp add: i64_def)
  show ?thesis
    by (subst getPositionsForSeeds.simps)
      (simp add: a b deref_def, simp add: mkSeed_def start_def i64_def u64_def)
qed

lemma S3_seeds_ok:
  "seedOnReference pack_two_contigs (mkSeed 0 10 85 True)"
  "seedOnReference pack_two_contigs (mkSeed 60 10 150 True)"
  by (simp_all add: seedOnReference_def mkSeed_def end_ref_def size'_def pack_two_contigs_def)

lemma S3_query:
  "end' (mkSeed 0 10 85 True) = 10" "start (mkSeed 60 10 150 True) = 60"
  by (simp_all add: end'_def start_def mkSeed_def)

theorem split_rectangles_witness:
  "getPositionsForSeeds config_S3 pack_two_contigs (SeedRef (mkSeed 0 10 85 True))
     (SeedRef (mkSeed 60 10 150 True)) 0 100
     = (mkRectangle 95 10 5 50, mkRectangle 100 10 50 50)
   \<and> size' (xXAxis (mkRectangle 95 10 5 50)) \<le> nat (halfMaxSizeReseed config_S3)
   \<and> withinOneContig pack_two_contigs (mkRectangle 95 10 5 50)
   \<and> size' (xXAxis (mkRectangle 100 10 50 50)) \<le> nat (halfMaxSizeReseed config_S3)
   \<and> withinOneContig pack_two_contigs (mkRectangle 100 10 50 50)"
proof -
  have qe: "end' (mkSeed 0 10 85 True) < 100" and qs: "0 < start (mkSeed 60 10 150 True)"
    by (simp_all add: S3_query)
  have ne: "lastRef config_S3 pack_two_contigs (SeedRef (mkSeed 0 10 85 True))
              (SeedRef (mkSeed 60 10 150 True)) 0
            \<noteq> nextRef config_S3 pack_two_contigs (SeedRef (mkSeed 0 10 85 True))
                (SeedRef (mkSeed 60 10 150 True)) 100"
    by (simp add: S3_refs)
  have sp: "splitNeeded config_S3 pack_two_contigs (mkSeed 0 10 85 True) (mkSeed 60 10 150 True)
              (lastRef config_S3 pack_two_contigs (SeedRef (mkSeed 0 10 85 True))
                 (SeedRef (mkSeed 60 10 150 True)) 0)
              (nextRef config_S3 pack_two_contigs (SeedRef (mkSeed 0 10 85 True))
                 (SeedRef (mkSeed 60 10 150 True)) 100)"
    by (simp add: S3_refs S3_split)
  have gap: "start (mkSeed 60 10 150 True) - end' (mkSeed 0 10 85 True) < 2 ^ 51"
    by (simp add: S3_query)
  from split_rectangles [OF S3_pack_ok S3_config_ok S3_seeds_ok qe qs gap ne sp]
  show ?thesis
    unfolding S3_query S3_right S3_left .
qed

text \<open>
  C4 as stated gives two rectangles whenever \<open>iLastRef\<close> and \<open>iNextRef - 1\<close> lie in
  different contigs. A forward seed that ends with the first contig, at reference
  position 100, and a forward seed that starts with the second one, at 100, have
  \<open>iLastRef = iNextRef = 100\<close>: the test \<open>iLastRef == iNextRef\<close> comes first and the result
  is the pair of empty rectangles, while the rectangle computed with the sentinel in
  place of the second seed is not empty.
\<close>

theorem split_rectangles_adjacent_counterexample:
  "splitNeeded config_S3 pack_two_contigs (mkSeed 0 10 90 True) (mkSeed 60 10 100 True)
     (lastRef config_S3 pack_two_contigs (SeedRef (mkSeed 0 10 90 True))
        (SeedRef (mkSeed 60 10 100 True)) 0)
     (nextRef config_S3 pack_two_contigs (SeedRef (mkSeed 0 10 90 True))
        (SeedRef (mkSeed 60 10 100 True)) 100)
   \<and> getPositionsForSeeds config_S3 pack_two_contigs (SeedRef (mkSeed 0 10 90 True))
       (SeedRef (mkSeed 60 10 100 True)) 0 100 = zeroRectangles
   \<and> fst (getPositionsForSeeds config_S3 pack_two_contigs (SeedRef (mkSeed 0 10 90 True)) DummyRef
            10 60) = mkRectangle 100 10 75 50
   \<and> fst zeroRectangles \<noteq> mkRectangle 100 10 75 50"
proof -
  have a: "lastRef config_S3 pack_two_contigs (SeedRef (mkSeed 0 10 90 True))
        (SeedRef (mkSeed 60 10 100 True)) 0 = 100"
    and b: "nextRef config_S3 pack_two_contigs (SeedRef (mkSeed 0 10 90 True))
        (SeedRef (mkSeed 60 10 100 True)) 100 = 100"
    by (simp_all add: lastRef_def nextRef_def deref_def mkSeed_def end_ref_def start_ref_def
        size'_def i64_def)
  have id: "uiSequenceIdForPosition pack_two_contigs 100 = 1"
    "uiSequenceIdForPosition pack_two_contigs 99 = 0"
    by (simp_all add: uiSequenceIdForPosition_def iAbsolutePosition_def
      bPositionIsOnReversStrand_def uiStartOfReverseStrand_def pack_two_contigs_def
      seqIdSearch.simps i64_def u64_def)
  have sp: "splitNeeded config_S3 pack_two_contigs (mkSeed 0 10 90 True) (mkSeed 60 10 100 True)
              100 100"
    by (simp add: splitNeeded_def u64_def id)
  have z: "getPositionsForSeeds config_S3 pack_two_contigs (SeedRef (mkSeed 0 10 90 True))
       (SeedRef (mkSeed 60 10 100 True)) 0 100 = zeroRectangles"
    by (subst getPositionsForSeeds.simps) (simp add: a b deref_def)
  have a': "lastRef config_S3 pack_two_contigs (SeedRef (mkSeed 0 10 90 True)) DummyRef 10 = 100"
    by (simp add: lastRef_def deref_def mkSeed_def end_ref_def start_ref_def size'_def i64_def)
  have e: "endOfSequenceWithId pack_two_contigs 1 = 200"
    by (simp add: endOfSequenceWithId_def startOfSequenceWithId_def pack_two_contigs_def)
  have q: "iQueryDistance config_S3 50 = 75"
    by (simp add: iQueryDistance_def timesExtraSeedingAreaFactor_def halfMaxSizeReseed_def
        config_S3_def)
  have b': "nextRef config_S3 pack_two_contigs (SeedRef (mkSeed 0 10 90 True)) DummyRef 60 = 175"
    by (simp add: nextRef_def deref_def mkSeed_def end_ref_def start_ref_def size'_def end'_def
        id e u64_def q) (simp add: i64_def)
  have r: "fst (getPositionsForSeeds config_S3 pack_two_contigs (SeedRef (mkSeed 0 10 90 True))
             DummyRef 10 60) = mkRectangle 100 10 75 50"
    by (subst getPositionsForSeeds.simps)
      (simp add: a' b' deref_def, simp add: mkSeed_def end'_def i64_def u64_def)
  have d: "fst zeroRectangles \<noteq> mkRectangle 100 10 75 50"
    by (simp add: zeroRectangles_def mkRectangle_def)
  show ?thesis
    unfolding a b by (intro conjI sp z r d)
qed

text \<open>
  The test \<open>iLastRef == iNextRef\<close> also comes before the test of the strands: a forward
  seed ending at reference position 95 and a reverse-strand seed starting at 94 have
  \<open>iLastRef = iNextRef = 95\<close>, and the result is the pair of empty rectangles.
\<close>

lemma strands_with_equal_endpoints:
  "splitNeeded config_S3 pack_two_contigs (mkSeed 0 10 85 True) (mkSeed 60 10 94 False)
     (lastRef config_S3 pack_two_contigs (SeedRef (mkSeed 0 10 85 True))
        (SeedRef (mkSeed 60 10 94 False)) 0)
     (nextRef config_S3 pack_two_contigs (SeedRef (mkSeed 0 10 85 True))
        (SeedRef (mkSeed 60 10 94 False)) 100)
   \<and> getPositionsForSeeds config_S3 pack_two_contigs (SeedRef (mkSeed 0 10 85 True))
       (SeedRef (mkSeed 60 10 94 False)) 0 100 = zeroRectangles
   \<and> fst (getPositionsForSeeds config_S3 pack_two_contigs (SeedRef (mkSeed 0 10 85 True)) DummyRef
            10 60) = mkRectangle 95 10 5 50
   \<and> fst zeroRectangles \<noteq> mkRectangle 95 10 5 50"
proof -
  have a: "lastRef config_S3 pack_two_contigs (SeedRef (mkSeed 0 10 85 True))
        (SeedRef (mkSeed 60 10 94 False)) 0 = 95"
    and b: "nextRef config_S3 pack_two_contigs (SeedRef (mkSeed 0 10 85 True))
        (SeedRef (mkSeed 60 10 94 False)) 100 = 95"
    by (simp_all add: lastRef_def nextRef_def deref_def mkSeed_def end_ref_def start_ref_def
        size'_def i64_def)
  have sp: "splitNeeded config_S3 pack_two_contigs (mkSeed 0 10 85 True) (mkSeed 60 10 94 False)
              95 95"
    by (simp add: splitNeeded_def mkSeed_def config_S3_def)
  have z: "getPositionsForSeeds config_S3 pack_two_contigs (SeedRef (mkSeed 0 10 85 True))
       (SeedRef (mkSeed 60 10 94 False)) 0 100 = zeroRectangles"
    by (subst getPositionsForSeeds.simps) (simp add: a b deref_def)
  have d: "fst zeroRectangles \<noteq> mkRectangle 95 10 5 50"
    by (simp add: zeroRectangles_def mkRectangle_def)
  show ?thesis
    unfolding a b by (intro conjI sp z S3_right d)
qed


end
